theory Spec2Isabelle
  imports Main "HOL-Library.Word" "HOL-Library.Sublist"
begin

section \<open>Redo log manager: cdc/redo/manager.go\<close>

subsection \<open>Values, errors and panics\<close>

text \<open>
  \<open>model.TableID\<close> is Go's \<open>int64\<close> and a timestamp is \<open>uint64\<close>: both are 64-bit words.
  Table ids are only compared, with the signed order (\<open>word_sle\<close>, \<open>word_sless\<close>);
  timestamps are compared with the unsigned order of the word type.
\<close>

type_synonym TableID = "64 word"
type_synonym Ts = "64 word"

definition MaxUint64 :: Ts where
  "MaxUint64 = - 1"

text \<open>
  A Go \<open>error\<close> that a function returns, and a run-time panic that ends the goroutine.
  The manager returns the writer's errors verbatim; they carry the writer's message.
\<close>

datatype error = ErrInvalidS3URI string | ErrConsistentStorage string | ErrWriter string

datatype panic = NilPointerDereference | NilMapAssignment

subsection \<open>Consistent level and storage\<close>

definition consistentLevelNormal :: string where
  "consistentLevelNormal = ''normal''"

definition consistentLevelEventual :: string where
  "consistentLevelEventual = ''eventual''"

definition consistentStorageLocal :: string where
  "consistentStorageLocal = ''local''"

definition consistentStorageS3 :: string where
  "consistentStorageS3 = ''s3''"

definition consistentStorageBlackhole :: string where
  "consistentStorageBlackhole = ''blackhole''"

definition IsValidConsistentLevel :: "string \<Rightarrow> bool" where
  "IsValidConsistentLevel level =
     (if level = consistentLevelNormal \<or> level = consistentLevelEventual then True else False)"

definition IsValidConsistentStorage :: "string \<Rightarrow> bool" where
  "IsValidConsistentStorage storage =
     (if storage = consistentStorageLocal \<or> storage = consistentStorageS3
         \<or> storage = consistentStorageBlackhole then True else False)"

subsection \<open>The writer interface\<close>

text \<open>
  \<open>writer.RedoLogWriter\<close> is an interface whose implementations live outside this file.
  It is a parameter of the model: a record of its methods over a writer state \<open>'w\<close>, each
  returning its results and the writer's next state. An \<open>error\<close> result is \<open>Some\<close> message
  or \<open>None\<close> for \<open>nil\<close>. \<open>GetCurrentResolvedTs\<close> returns a Go map; it is given as the list
  of its entries in the order the \<open>range\<close> loop visits them.
\<close>

record ('w, 'r, 'd) RedoLogWriter =
  writer_WriteLog :: "TableID \<Rightarrow> 'r list \<Rightarrow> 'w \<Rightarrow> (Ts \<times> string option) \<times> 'w"
  writer_FlushLog :: "TableID \<Rightarrow> Ts \<Rightarrow> 'w \<Rightarrow> string option \<times> 'w"
  writer_SendDDL :: "'d \<Rightarrow> 'w \<Rightarrow> string option \<times> 'w"
  writer_EmitResolvedTs :: "Ts \<Rightarrow> 'w \<Rightarrow> string option \<times> 'w"
  writer_EmitCheckpointTs :: "Ts \<Rightarrow> 'w \<Rightarrow> string option \<times> 'w"
  writer_GetCurrentResolvedTs :: "TableID list \<Rightarrow> 'w \<Rightarrow> (string + (TableID \<times> Ts) list) \<times> 'w"

subsection \<open>The manager\<close>

text \<open>
  \<open>ManagerImpl\<close>. The writer field is \<open>None\<close> for a nil interface and \<open>rtsMap\<close> is \<open>None\<close>
  for a nil map; a nil slice is the empty list. The mutex is not modelled: every method
  that takes it runs as one atomic step, and \<open>minResolvedTs\<close> is read and written whole.
\<close>

record 'w ManagerImpl =
  enabled :: bool
  level :: string
  storage :: string
  writer :: "'w option"
  minResolvedTs :: Ts
  tableIDs :: "TableID list"
  rtsMap :: "(TableID \<rightharpoonup> Ts) option"

definition wrapErr :: "string option \<Rightarrow> error option" where
  "wrapErr e = map_option ErrWriter e"

definition Enabled :: "'w ManagerImpl \<Rightarrow> bool" where
  "Enabled m = enabled m"

definition EmitRowChangedEvents ::
  "('w, 'r, 'd) RedoLogWriter \<Rightarrow> ('row \<Rightarrow> 'r) \<Rightarrow> 'w ManagerImpl \<Rightarrow> TableID \<Rightarrow> 'row list
     \<Rightarrow> panic + (error option \<times> 'w ManagerImpl)" where
  "EmitRowChangedEvents W RowToRedo m tableID rows =
     (let logs = map RowToRedo rows in
      case writer m of
        None \<Rightarrow> Inl NilPointerDereference
      | Some w \<Rightarrow>
          (case writer_WriteLog W tableID logs w of
             ((_, err), w') \<Rightarrow> Inr (wrapErr err, m\<lparr>writer := Some w'\<rparr>)))"

definition FlushLog ::
  "('w, 'r, 'd) RedoLogWriter \<Rightarrow> 'w ManagerImpl \<Rightarrow> TableID \<Rightarrow> Ts
     \<Rightarrow> panic + (error option \<times> 'w ManagerImpl)" where
  "FlushLog W m tableID resolvedTs =
     (case writer m of
        None \<Rightarrow> Inl NilPointerDereference
      | Some w \<Rightarrow>
          (case writer_FlushLog W tableID resolvedTs w of
             (err, w') \<Rightarrow> Inr (wrapErr err, m\<lparr>writer := Some w'\<rparr>)))"

definition EmitDDLEvent ::
  "('w, 'r, 'd) RedoLogWriter \<Rightarrow> ('ddl \<Rightarrow> 'd) \<Rightarrow> 'w ManagerImpl \<Rightarrow> 'ddl
     \<Rightarrow> panic + (error option \<times> 'w ManagerImpl)" where
  "EmitDDLEvent W DDLToRedo m ddl =
     (case writer m of
        None \<Rightarrow> Inl NilPointerDereference
      | Some w \<Rightarrow>
          (case writer_SendDDL W (DDLToRedo ddl) w of
             (err, w') \<Rightarrow> Inr (wrapErr err, m\<lparr>writer := Some w'\<rparr>)))"

definition GetMinResolvedTs :: "'w ManagerImpl \<Rightarrow> Ts" where
  "GetMinResolvedTs m = minResolvedTs m"

definition FlushResolvedAndCheckpointTs ::
  "('w, 'r, 'd) RedoLogWriter \<Rightarrow> 'w ManagerImpl \<Rightarrow> Ts \<Rightarrow> Ts
     \<Rightarrow> panic + (error option \<times> 'w ManagerImpl)" where
  "FlushResolvedAndCheckpointTs W m resolvedTs checkpointTs =
     (case writer m of
        None \<Rightarrow> Inl NilPointerDereference
      | Some w \<Rightarrow>
          (case writer_EmitResolvedTs W resolvedTs w of
             (Some e, w') \<Rightarrow> Inr (Some (ErrWriter e), m\<lparr>writer := Some w'\<rparr>)
           | (None, w') \<Rightarrow>
               (case writer_EmitCheckpointTs W checkpointTs w' of
                  (err, w'') \<Rightarrow> Inr (wrapErr err, m\<lparr>writer := Some w''\<rparr>))))"

text \<open>
  Go's \<open>sort.Search(n, f)\<close>: the binary search of the standard library,
  \<open>i, j := 0, n; for i < j { h := int(uint(i+j) >> 1); if !f(h) { i = h + 1 } else { j = h } }; return i\<close>.
\<close>

function search_loop :: "(nat \<Rightarrow> bool) \<Rightarrow> nat \<Rightarrow> nat \<Rightarrow> nat" where
  "search_loop f i j =
     (if i < j then
        (let h = (i + j) div 2 in
         if \<not> f h then search_loop f (h + 1) j else search_loop f i h)
      else i)"
  by pat_completeness auto
termination
  by (relation "measure (\<lambda>(f, i, j). j - i)") auto

definition Search :: "nat \<Rightarrow> (nat \<Rightarrow> bool) \<Rightarrow> nat" where
  "Search n f = search_loop f 0 n"

text \<open>
  Go's \<open>copy(dst, src)\<close> where \<open>dst\<close> is the slice \<open>xs[off:]\<close>: it overwrites
  \<open>min (len dst) (len src)\<close> elements of \<open>xs\<close> from position \<open>off\<close> and leaves the rest.
\<close>

definition copy_at :: "'a list \<Rightarrow> nat \<Rightarrow> 'a list \<Rightarrow> 'a list" where
  "copy_at xs off src =
     take off xs @ take (length xs - off) src @ drop (off + length src) xs"

definition AddTable :: "'w ManagerImpl \<Rightarrow> TableID \<Rightarrow> Ts \<Rightarrow> panic + 'w ManagerImpl" where
  "AddTable m tableID startTs =
     (let i = Search (length (tableIDs m)) (\<lambda>i. word_sle tableID (tableIDs m ! i)) in
      if i < length (tableIDs m) \<and> tableIDs m ! i = tableID then Inr m
      else
        (let ids = (if i = length (tableIDs m) then tableIDs m @ [tableID]
                    else (take (i + 1) (tableIDs m) @ drop i (tableIDs m))[i := tableID]) in
         case rtsMap m of
           None \<Rightarrow> Inl NilMapAssignment
         | Some rts \<Rightarrow> Inr (m\<lparr>tableIDs := ids, rtsMap := Some (rts(tableID \<mapsto> startTs))\<rparr>)))"

definition RemoveTable :: "'w ManagerImpl \<Rightarrow> TableID \<Rightarrow> 'w ManagerImpl" where
  "RemoveTable m tableID =
     (let i = Search (length (tableIDs m)) (\<lambda>i. word_sle tableID (tableIDs m ! i)) in
      if i < length (tableIDs m) \<and> tableIDs m ! i = tableID then
        (let copied = copy_at (tableIDs m) i (drop (i + 1) (tableIDs m)) in
         m\<lparr>tableIDs := take (length copied - 1) copied,
           rtsMap := map_option (\<lambda>rts. rts(tableID := None)) (rtsMap m)\<rparr>)
      else m)"

text \<open>
  The \<open>range\<close> loop of \<open>updateTableResolvedTs\<close> over the entries of the writer's map:
  each entry is stored into \<open>m.rtsMap\<close> (a panic when that map is nil) and lowers the
  running minimum when it is smaller.
\<close>

fun rts_loop ::
  "(TableID \<times> Ts) list \<Rightarrow> (TableID \<rightharpoonup> Ts) option \<Rightarrow> Ts \<Rightarrow> panic + ((TableID \<rightharpoonup> Ts) option \<times> Ts)" where
  "rts_loop [] rm mn = Inr (rm, mn)"
| "rts_loop ((tableID, rts) # rest) rm mn =
     (case rm of
        None \<Rightarrow> Inl NilMapAssignment
      | Some f \<Rightarrow> rts_loop rest (Some (f(tableID \<mapsto> rts))) (if rts < mn then rts else mn))"

definition updateTableResolvedTs ::
  "('w, 'r, 'd) RedoLogWriter \<Rightarrow> 'w ManagerImpl \<Rightarrow> panic + (error option \<times> 'w ManagerImpl)" where
  "updateTableResolvedTs W m =
     (case writer m of
        None \<Rightarrow> Inl NilPointerDereference
      | Some w \<Rightarrow>
          (case writer_GetCurrentResolvedTs W (tableIDs m) w of
             (Inl e, w') \<Rightarrow> Inr (Some (ErrWriter e), m\<lparr>writer := Some w'\<rparr>)
           | (Inr reported, w') \<Rightarrow>
               (case rts_loop reported (rtsMap m) MaxUint64 of
                  Inl p \<Rightarrow> Inl p
                | Inr (rm, minTs) \<Rightarrow>
                    Inr (None, m\<lparr>writer := Some w', minResolvedTs := minTs, rtsMap := rm\<rparr>))))"

text \<open>
  The background loop \<open>run\<close>: at each tick of the ticker it calls
  \<open>updateTableResolvedTs\<close>; an error is sent to the error channel and ends the loop, and
  so does the cancellation of the context. The goroutine is modelled by its events: the
  system is the manager, whether the loop is still running, and what the error channel
  has received. The processor's calls and the ticks interleave as a list of events.
\<close>

record 'w System =
  mgr :: "'w ManagerImpl"
  bgRunning :: bool
  errCh :: "error list"

datatype event =
    EvAddTable TableID Ts
  | EvRemoveTable TableID
  | EvFlushLog TableID Ts
  | EvTick
  | EvCancel

fun step :: "('w, 'r, 'd) RedoLogWriter \<Rightarrow> 'w System \<Rightarrow> event \<Rightarrow> panic + 'w System" where
  "step W s (EvAddTable tableID startTs) =
     (case AddTable (mgr s) tableID startTs of
        Inl p \<Rightarrow> Inl p
      | Inr m \<Rightarrow> Inr (s\<lparr>mgr := m\<rparr>))"
| "step W s (EvRemoveTable tableID) = Inr (s\<lparr>mgr := RemoveTable (mgr s) tableID\<rparr>)"
| "step W s (EvFlushLog tableID resolvedTs) =
     (case FlushLog W (mgr s) tableID resolvedTs of
        Inl p \<Rightarrow> Inl p
      | Inr (err, m) \<Rightarrow> Inr (s\<lparr>mgr := m\<rparr>))"
| "step W s EvTick =
     (if \<not> bgRunning s then Inr s
      else
        (case updateTableResolvedTs W (mgr s) of
           Inl p \<Rightarrow> Inl p
         | Inr (None, m) \<Rightarrow> Inr (s\<lparr>mgr := m\<rparr>)
         | Inr (Some e, m) \<Rightarrow> Inr (s\<lparr>mgr := m, bgRunning := False, errCh := errCh s @ [e]\<rparr>)))"
| "step W s EvCancel = Inr (s\<lparr>bgRunning := False\<rparr>)"

text \<open>What \<open>GetMinResolvedTs\<close> returns after each event of a run, up to a panic.\<close>

fun observe :: "('w, 'r, 'd) RedoLogWriter \<Rightarrow> 'w System \<Rightarrow> event list \<Rightarrow> Ts list" where
  "observe W s [] = []"
| "observe W s (e # es) =
     (case step W s e of
        Inl p \<Rightarrow> []
      | Inr s' \<Rightarrow> GetMinResolvedTs (mgr s') # observe W s' es)"

text \<open>
  The report that an event obtains from the writer: an event other than a tick, a tick
  after the loop has ended, and a tick that the writer answers with an error obtain none.
\<close>

definition tickReport ::
  "('w, 'r, 'd) RedoLogWriter \<Rightarrow> 'w System \<Rightarrow> event \<Rightarrow> (TableID \<times> Ts) list option" where
  "tickReport W s e =
     (if e = EvTick \<and> bgRunning s then
        (case writer (mgr s) of
           None \<Rightarrow> None
         | Some w \<Rightarrow>
             (case fst (writer_GetCurrentResolvedTs W (tableIDs (mgr s)) w) of
                Inl err \<Rightarrow> None
              | Inr reported \<Rightarrow> Some reported))
      else None)"

text \<open>
  A later report advances an earlier one when each of its tables was already in the
  earlier report, with a timestamp that is not larger: the writer reports no new table
  and takes no table's timestamp back.
\<close>

definition advances :: "(TableID \<times> Ts) list \<Rightarrow> (TableID \<times> Ts) list \<Rightarrow> bool" where
  "advances earlier later =
     list_all (\<lambda>(tableID, rts). list_ex (\<lambda>(tableID0, rts0). tableID0 = tableID \<and> rts0 \<le> rts) earlier)
       later"

text \<open>
  Along a run, each report of a tick advances the report of the tick before it. The
  first report is free.
\<close>

fun reportsProgress ::
  "('w, 'r, 'd) RedoLogWriter \<Rightarrow> 'w System \<Rightarrow> (TableID \<times> Ts) list option \<Rightarrow> event list \<Rightarrow> bool" where
  "reportsProgress W s previous [] = True"
| "reportsProgress W s previous (e # es) =
     (case step W s e of
        Inl p \<Rightarrow> True
      | Inr s' \<Rightarrow>
          (case tickReport W s e of
             None \<Rightarrow> reportsProgress W s' previous es
           | Some reported \<Rightarrow>
               (case previous of None \<Rightarrow> True | Some earlier \<Rightarrow> advances earlier reported)
               \<and> reportsProgress W s' (Some reported) es))"

subsection \<open>Table bookkeeping\<close>

definition ascending :: "TableID list \<Rightarrow> bool" where
  "ascending ids = sorted_wrt word_sless ids"

text \<open>The keys of \<open>rtsMap\<close>; a nil map has none.\<close>

definition rtsKeys :: "'w ManagerImpl \<Rightarrow> TableID set" where
  "rtsKeys m = (case rtsMap m of None \<Rightarrow> {} | Some rts \<Rightarrow> dom rts)"

definition tablesConsistent :: "'w ManagerImpl \<Rightarrow> bool" where
  "tablesConsistent m \<longleftrightarrow> rtsKeys m = set (tableIDs m) \<and> ascending (tableIDs m)"

datatype tableOp = OpAddTable TableID Ts | OpRemoveTable TableID

fun applyTableOp :: "'w ManagerImpl \<Rightarrow> tableOp \<Rightarrow> panic + 'w ManagerImpl" where
  "applyTableOp m (OpAddTable tableID startTs) = AddTable m tableID startTs"
| "applyTableOp m (OpRemoveTable tableID) = Inr (RemoveTable m tableID)"

fun applyTableOps :: "'w ManagerImpl \<Rightarrow> tableOp list \<Rightarrow> panic + 'w ManagerImpl" where
  "applyTableOps m [] = Inr m"
| "applyTableOps m (x # xs) =
     (case applyTableOp m x of Inl p \<Rightarrow> Inl p | Inr m' \<Rightarrow> applyTableOps m' xs)"

subsection \<open>Construction\<close>

text \<open>
  \<open>config.ConsistentConfig\<close> and \<open>writer.LogWriterConfig\<close> with the fields that
  \<open>NewManager\<close> reads and writes, and \<open>ManagerOptions\<close>. What \<open>NewManager\<close> takes from
  other packages and from the context is gathered in an environment: the two writer
  constructors, \<open>url.Parse\<close>, \<open>filepath.Join\<close>, the global data directory,
  \<open>config.DefaultRedoDir\<close>, the capture address and changefeed id of the context, and
  the clock.
\<close>

record ConsistentConfig =
  cfg_Level :: string
  cfg_Storage :: string
  cfg_MaxLogSize :: "64 word"
  cfg_FlushIntervalInMs :: "64 word"
  cfg_S3URI :: string

record 'u LogWriterConfig =
  lw_Dir :: string
  lw_CaptureID :: string
  lw_ChangeFeedID :: string
  lw_CreateTime :: int
  lw_MaxLogSize :: "64 word"
  lw_FlushIntervalInMs :: "64 word"
  lw_S3Storage :: bool
  lw_S3URI :: "'u option"

record ManagerOptions =
  EnableBgRunner :: bool

record ('w, 'u) Env =
  env_NewBlackHoleWriter :: 'w
  env_NewLogWriter :: "'u LogWriterConfig \<Rightarrow> 'w"
  env_url_Parse :: "string \<Rightarrow> string + 'u"
  env_filepath_Join :: "string \<Rightarrow> string \<Rightarrow> string"
  env_DataDir :: string
  env_DefaultRedoDir :: string
  env_CaptureAddr :: string
  env_ChangefeedID :: string
  env_Now :: int

text \<open>\<open>&ManagerImpl{enabled: false}\<close>: every other field has Go's zero value.\<close>

definition disabledManager :: "'w ManagerImpl" where
  "disabledManager =
     \<lparr>enabled = False, level = [], storage = [], writer = None, minResolvedTs = 0,
      tableIDs = [], rtsMap = None\<rparr>"

text \<open>
  \<open>NewManager\<close> returns the manager and whether it started the background loop. A nil
  \<open>opts\<close> is dereferenced only on the path that reaches \<open>opts.EnableBgRunner\<close>.
\<close>

definition NewManager ::
  "('w, 'u) Env \<Rightarrow> ConsistentConfig option \<Rightarrow> ManagerOptions option
     \<Rightarrow> panic + (error + 'w ManagerImpl \<times> bool)" where
  "NewManager E cfg opts =
     (case cfg of
        None \<Rightarrow> Inr (Inr (disabledManager, False))
      | Some c \<Rightarrow>
          if cfg_Level c = consistentLevelNormal then Inr (Inr (disabledManager, False))
          else
            (let m = \<lparr>enabled = True, level = cfg_Level c, storage = cfg_Storage c,
                      writer = None, minResolvedTs = 0, tableIDs = [],
                      rtsMap = Some Map.empty\<rparr>;
                 built =
                   (if storage m = consistentStorageBlackhole then
                      Inr (m\<lparr>writer := Some (env_NewBlackHoleWriter E)\<rparr>)
                    else if storage m = consistentStorageLocal \<or> storage m = consistentStorageS3 then
                      (let redoDir = env_filepath_Join E (env_DataDir E) (env_DefaultRedoDir E);
                           writerCfg =
                             \<lparr>lw_Dir = redoDir, lw_CaptureID = env_CaptureAddr E,
                              lw_ChangeFeedID = env_ChangefeedID E, lw_CreateTime = env_Now E,
                              lw_MaxLogSize = cfg_MaxLogSize c,
                              lw_FlushIntervalInMs = cfg_FlushIntervalInMs c,
                              lw_S3Storage = (cfg_Storage c = consistentStorageS3),
                              lw_S3URI = None\<rparr>
                       in if lw_S3Storage writerCfg then
                            (case env_url_Parse E (cfg_S3URI c) of
                               Inl err \<Rightarrow> Inl (ErrInvalidS3URI err)
                             | Inr s3URI \<Rightarrow>
                                 Inr (m\<lparr>writer :=
                                        Some (env_NewLogWriter E (writerCfg\<lparr>lw_S3URI := Some s3URI\<rparr>))\<rparr>))
                          else Inr (m\<lparr>writer := Some (env_NewLogWriter E writerCfg)\<rparr>))
                    else Inl (ErrConsistentStorage (storage m)))
             in case built of
                  Inl e \<Rightarrow> Inr (Inl e)
                | Inr m' \<Rightarrow>
                    (case opts of
                       None \<Rightarrow> Inl NilPointerDereference
                     | Some options \<Rightarrow> Inr (Inr (m', EnableBgRunner options)))))"

definition NewDisabledManager :: "'w ManagerImpl" where
  "NewDisabledManager = disabledManager"

subsection \<open>A writer backend to run the manager on\<close>

text \<open>
  Modelled from the spec: the writer backends (package \<open>writer\<close>) are not among the
  sources. The spec says of the blackhole backend that it accepts everything, drops it
  and returns success; of \<open>FlushLog\<close> that it instructs the writer up to the named
  table's resolved timestamp; and of every tick that the manager asks the writer for the
  current resolved timestamp of every known table. The writer's state is the resolved
  timestamp it holds for each table, and it reports the tables it is asked about.
\<close>

definition tsWriter :: "(TableID \<rightharpoonup> Ts, 'r, 'd) RedoLogWriter" where
  "tsWriter =
     \<lparr>writer_WriteLog = (\<lambda>tableID logs w. ((0, None), w)),
      writer_FlushLog = (\<lambda>tableID resolvedTs w. (None, w(tableID \<mapsto> resolvedTs))),
      writer_SendDDL = (\<lambda>ddl w. (None, w)),
      writer_EmitResolvedTs = (\<lambda>ts w. (None, w)),
      writer_EmitCheckpointTs = (\<lambda>ts w. (None, w)),
      writer_GetCurrentResolvedTs =
        (\<lambda>ids w. (Inr (List.map_filter (\<lambda>tableID. map_option (Pair tableID) (w tableID)) ids), w))\<rparr>"

text \<open>
  An environment to build managers in. Its writer constructors give a writer that holds
  no timestamp yet. Its stand-in for \<open>url.Parse\<close> rejects two kinds of text that Go's
  parser rejects, a leading colon (missing protocol scheme) and an ASCII control
  character, and keeps any other text as it is.
\<close>

definition testEnv :: "(TableID \<rightharpoonup> Ts, string) Env" where
  "testEnv =
     \<lparr>env_NewBlackHoleWriter = Map.empty,
      env_NewLogWriter = (\<lambda>c. Map.empty),
      env_url_Parse =
        (\<lambda>s. if take 1 s = '':'' then Inl ''missing protocol scheme''
             else if list_ex (\<lambda>c. (of_char c :: nat) < 32 \<or> (of_char c :: nat) = 127) s
               then Inl ''invalid control character in URL''
             else Inr s),
      env_filepath_Join = (\<lambda>a b. a @ ''/'' @ b),
      env_DataDir = ''/tmp/cdc_data'',
      env_DefaultRedoDir = ''redo'',
      env_CaptureAddr = ''127.0.0.1:8300'',
      env_ChangefeedID = ''cf-id'',
      env_Now = 0\<rparr>"

text \<open>The manager that \<open>NewManager\<close> builds for level eventual on blackhole storage.\<close>

definition eventualConfig :: ConsistentConfig where
  "eventualConfig =
     \<lparr>cfg_Level = ''eventual'', cfg_Storage = ''blackhole'', cfg_MaxLogSize = 64,
      cfg_FlushIntervalInMs = 1000, cfg_S3URI = []\<rparr>"

definition enabledManager :: "(TableID \<rightharpoonup> Ts) ManagerImpl" where
  "enabledManager =
     \<lparr>enabled = True, level = ''eventual'', storage = ''blackhole'', writer = Some Map.empty,
      minResolvedTs = 0, tableIDs = [], rtsMap = Some Map.empty\<rparr>"

definition startSystem :: "(TableID \<rightharpoonup> Ts) System" where
  "startSystem = \<lparr>mgr = enabledManager, bgRunning = True, errCh = []\<rparr>"

text \<open>The writer at fixed row and DDL types, for the runs below.\<close>

abbreviation testWriter :: "(TableID \<rightharpoonup> Ts, nat, nat) RedoLogWriter" where
  "testWriter \<equiv> tsWriter"

text \<open>A writer state that holds the resolved timestamps \<open>{1:120, 2:220, 3:160}\<close>.\<close>

definition ackedWriter :: "TableID \<rightharpoonup> Ts" where
  "ackedWriter = [1 \<mapsto> 120, 2 \<mapsto> 220, 3 \<mapsto> 160]"

text \<open>
  A running system whose manager tracks the tables 1, 2 and 3 and whose writer holds
  those timestamps.
\<close>

definition ackedSystem :: "(TableID \<rightharpoonup> Ts) System" where
  "ackedSystem =
     \<lparr>mgr = enabledManager
        \<lparr>writer := Some ackedWriter, tableIDs := [1, 2, 3],
         rtsMap := Some [1 \<mapsto> 100, 2 \<mapsto> 200, 3 \<mapsto> 150]\<rparr>,
      bgRunning = True, errCh = []\<rparr>"

text \<open>Consistent configs: level normal, an unknown level, an unknown storage.\<close>

definition normalConfig :: ConsistentConfig where
  "normalConfig =
     \<lparr>cfg_Level = ''normal'', cfg_Storage = ''blackhole'', cfg_MaxLogSize = 64,
      cfg_FlushIntervalInMs = 1000, cfg_S3URI = []\<rparr>"

definition bogusLevelConfig :: ConsistentConfig where
  "bogusLevelConfig =
     \<lparr>cfg_Level = ''bogus'', cfg_Storage = ''blackhole'', cfg_MaxLogSize = 64,
      cfg_FlushIntervalInMs = 1000, cfg_S3URI = []\<rparr>"

definition badStorageConfig :: ConsistentConfig where
  "badStorageConfig =
     \<lparr>cfg_Level = ''eventual'', cfg_Storage = ''tape'', cfg_MaxLogSize = 64,
      cfg_FlushIntervalInMs = 1000, cfg_S3URI = []\<rparr>"

section \<open>Sink parameters and DSN: cdc/sink\<close>

text \<open>
  Modelled from the spec: the record \<open>sinkParams\<close>, declared in a file of package \<open>sink\<close>
  that is not among the sources (only \<open>mysql_params_test.go\<close> is). Its fields are those of
  the spec's data model and of the test's literals; durations are kept as the text that
  the URI gives and the DSN shows (\<open>2m\<close>), integers are Go's \<open>int\<close>.
\<close>

record sinkParams =
  workerCount :: int
  maxTxnRow :: int
  tidbTxnMode :: string
  batchReplaceEnabled :: bool
  batchReplaceSize :: int
  readTimeout :: string
  writeTimeout :: string
  dialTimeout :: string
  safeMode :: bool
  timezone :: string
  changefeedID :: string
  captureAddr :: string
  tlsMaterial :: "(string \<times> string \<times> string) option"

text \<open>
  Modelled from the spec: the default instance \<open>defaultParams\<close> (its declaration is not
  among the sources), with the values of the spec's first scenario; the fields that the
  test's literal leaves out have Go's zero value.
\<close>

definition defaultParams :: sinkParams where
  "defaultParams =
     \<lparr>workerCount = 16, maxTxnRow = 256, tidbTxnMode = ''optimistic'',
      batchReplaceEnabled = True, batchReplaceSize = 20, readTimeout = ''2m'',
      writeTimeout = ''2m'', dialTimeout = ''2s'', safeMode = False, timezone = [],
      changefeedID = [], captureAddr = [], tlsMaterial = None\<rparr>"

text \<open>
  Parameter records are used through pointers (\<open>*sinkParams\<close>), so that whether a write
  through one pointer shows through another is a question about the store. The store is
  the list of the allocated records and a pointer is an index into it; an index beyond
  the store stands for nil.
\<close>

type_synonym store = "sinkParams list"

text \<open>
  Modelled from the spec: the method \<open>Clone\<close> of \<open>*sinkParams\<close> (not among the sources),
  which the spec says produces a deep copy: a newly allocated record with the fields of
  the receiver.
\<close>

definition Clone :: "store \<Rightarrow> nat \<Rightarrow> panic + (nat \<times> store)" where
  "Clone h p =
     (if p < length h then Inr (length h, h @ [h ! p]) else Inl NilPointerDereference)"

text \<open>
  An assignment to a field of the record that a pointer refers to, \<open>p.f = v\<close>; through a
  nil pointer it is a panic.
\<close>

definition assign :: "store \<Rightarrow> nat \<Rightarrow> (sinkParams \<Rightarrow> sinkParams) \<Rightarrow> panic + store" where
  "assign h p upd =
     (if p < length h then Inr (h[p := upd (h ! p)]) else Inl NilPointerDereference)"

subsection \<open>Reading the sink URI\<close>

text \<open>
  A \<open>*url.URL\<close> as \<open>url.Parse\<close> returns it, with its query decoded into the list of its
  key and value pairs; \<open>Query().Get\<close> reads the first value of a key.
\<close>

record URL =
  url_Scheme :: string
  url_Host :: string
  url_Query :: "(string \<times> string) list"

text \<open>
  Modelled from the spec: the errors of the sink layer (declared outside the sources), an
  invalid configuration (scheme or query parameter) and a connection error of the probe.
\<close>

datatype sink_error = ErrInvalidConfig string | ErrConnection string

text \<open>Go's \<open>strconv.Atoi\<close> and \<open>strconv.ParseBool\<close>.\<close>

definition isDigit :: "char \<Rightarrow> bool" where
  "isDigit c = (c \<in> set ''0123456789'')"

definition digitsValue :: "string \<Rightarrow> nat" where
  "digitsValue ds = foldl (\<lambda>acc c. 10 * acc + (of_char c - 48)) 0 ds"

definition Atoi :: "string \<Rightarrow> int option" where
  "Atoi s =
     (let neg = (take 1 s = ''-'');
          ds = (if take 1 s = ''-'' \<or> take 1 s = ''+'' then drop 1 s else s)
      in if ds = [] \<or> \<not> list_all isDigit ds then None
         else
           (let v = (if neg then - int (digitsValue ds) else int (digitsValue ds))
            in if - (2 ^ 63) \<le> v \<and> v < 2 ^ 63 then Some v else None))"

definition ParseBool :: "string \<Rightarrow> bool option" where
  "ParseBool s =
     (if s \<in> set [''1'', ''t'', ''T'', ''TRUE'', ''true'', ''True''] then Some True
      else if s \<in> set [''0'', ''f'', ''F'', ''FALSE'', ''false'', ''False''] then Some False
      else None)"

text \<open>
  Modelled from the spec: the duration forms that the parser accepts (the parser is not
  among the sources): a number followed by one of the units \<open>s\<close>, \<open>ms\<close>, \<open>m\<close>, \<open>h\<close>.
\<close>

definition isDuration :: "string \<Rightarrow> bool" where
  "isDuration s =
     (takeWhile isDigit s \<noteq> [] \<and> dropWhile isDigit s \<in> set [''s'', ''ms'', ''m'', ''h''])"

text \<open>
  Modelled from the spec: the key of the changefeed id in the options map (the constant
  \<open>OptChangefeedID\<close> is declared outside the sources; the spec does not fix its text).
\<close>

definition OptChangefeedID :: string where
  "OptChangefeedID = ''_changefeed_id''"

text \<open>
  Modelled from the spec: the key of the capture address in the options map (the
  constant \<open>OptCaptureAddr\<close> is declared outside the sources).
\<close>

definition OptCaptureAddr :: string where
  "OptCaptureAddr = ''_capture_addr''"

text \<open>
  Modelled from the spec: the rule of the parse table for an integer key (the function
  \<open>parseSinkURIToParams\<close> is not among the sources). An absent key keeps the default; a
  present one must be an integer of at least 1, and otherwise the parse fails.
\<close>

definition intParam ::
  "(string \<times> string) list \<Rightarrow> string \<Rightarrow> (int \<Rightarrow> sinkParams \<Rightarrow> sinkParams) \<Rightarrow> sinkParams
     \<Rightarrow> sink_error + sinkParams" where
  "intParam q key upd p =
     (case map_of q key of
        None \<Rightarrow> Inr p
      | Some s \<Rightarrow>
          (case Atoi s of
             None \<Rightarrow> Inl (ErrInvalidConfig key)
           | Some n \<Rightarrow> if 1 \<le> n then Inr (upd n p) else Inl (ErrInvalidConfig key)))"

text \<open>
  Modelled from the spec: the rule of the parse table for a boolean key (of
  \<open>parseSinkURIToParams\<close>, not among the sources); a value that is no boolean fails the
  parse.
\<close>

definition boolParam ::
  "(string \<times> string) list \<Rightarrow> string \<Rightarrow> (bool \<Rightarrow> sinkParams \<Rightarrow> sinkParams) \<Rightarrow> sinkParams
     \<Rightarrow> sink_error + sinkParams" where
  "boolParam q key upd p =
     (case map_of q key of
        None \<Rightarrow> Inr p
      | Some s \<Rightarrow>
          (case ParseBool s of
             None \<Rightarrow> Inl (ErrInvalidConfig key)
           | Some b \<Rightarrow> Inr (upd b p)))"

text \<open>
  Modelled from the spec: the rule of the parse table for a duration key (of
  \<open>parseSinkURIToParams\<close>, not among the sources); an unparseable value fails the parse.
\<close>

definition durationParam ::
  "(string \<times> string) list \<Rightarrow> string \<Rightarrow> (string \<Rightarrow> sinkParams \<Rightarrow> sinkParams) \<Rightarrow> sinkParams
     \<Rightarrow> sink_error + sinkParams" where
  "durationParam q key upd p =
     (case map_of q key of
        None \<Rightarrow> Inr p
      | Some s \<Rightarrow> if isDuration s then Inr (upd s p) else Inl (ErrInvalidConfig key))"

text \<open>
  Modelled from the spec: the rule of the parse table for \<open>tidb-txn-mode\<close> (of
  \<open>parseSinkURIToParams\<close>, not among the sources): \<open>optimistic\<close> or \<open>pessimistic\<close>.
\<close>

definition txnModeParam :: "(string \<times> string) list \<Rightarrow> sinkParams \<Rightarrow> sink_error + sinkParams" where
  "txnModeParam q p =
     (case map_of q ''tidb-txn-mode'' of
        None \<Rightarrow> Inr p
      | Some s \<Rightarrow>
          if s = ''optimistic'' \<or> s = ''pessimistic'' then Inr (p\<lparr>tidbTxnMode := s\<rparr>)
          else Inl (ErrInvalidConfig ''tidb-txn-mode''))"

text \<open>
  Modelled from the spec: the rule of the parse table for \<open>time-zone\<close> (of
  \<open>parseSinkURIToParams\<close>, not among the sources): an empty value gives the empty
  string, a missing key gives \<open>"UTC"\<close> with its double quotes, and any other value is put
  between double quotes.
\<close>

definition timezoneParam :: "(string \<times> string) list \<Rightarrow> sinkParams \<Rightarrow> sink_error + sinkParams" where
  "timezoneParam q p =
     (case map_of q ''time-zone'' of
        None \<Rightarrow> Inr (p\<lparr>timezone := ''\"UTC\"''\<rparr>)
      | Some s \<Rightarrow>
          if s = [] then Inr (p\<lparr>timezone := []\<rparr>)
          else Inr (p\<lparr>timezone := ''\"'' @ s @ ''\"''\<rparr>))"

text \<open>
  Modelled from the spec: the rule of the parse table for \<open>ssl-ca\<close>, \<open>ssl-cert\<close> and
  \<open>ssl-key\<close> (of \<open>parseSinkURIToParams\<close>, not among the sources): all three or none.
\<close>

definition tlsParam :: "(string \<times> string) list \<Rightarrow> sinkParams \<Rightarrow> sink_error + sinkParams" where
  "tlsParam q p =
     (case (map_of q ''ssl-ca'', map_of q ''ssl-cert'', map_of q ''ssl-key'') of
        (None, None, None) \<Rightarrow> Inr p
      | (Some ca, Some cert, Some key) \<Rightarrow> Inr (p\<lparr>tlsMaterial := Some (ca, cert, key)\<rparr>)
      | _ \<Rightarrow> Inl (ErrInvalidConfig ''ssl''))"

text \<open>The next step of a parse runs only if the one before did not fail.\<close>

definition andThen :: "sink_error + 'a \<Rightarrow> ('a \<Rightarrow> sink_error + 'b) \<Rightarrow> sink_error + 'b" where
  "andThen r f = (case r of Inl e \<Rightarrow> Inl e | Inr x \<Rightarrow> f x)"

text \<open>
  Modelled from the spec: \<open>parseSinkURIToParams\<close> (not among the sources). A nil URI and
  a scheme other than \<open>mysql\<close> and \<open>tidb\<close> fail; the parameters start as a clone of the
  defaults, take the changefeed id and the capture address from the options map, and
  then each recognised query key in turn. The result is a fresh record, returned here
  by value.
\<close>

definition parseSinkURIToParams ::
  "URL option \<Rightarrow> (string \<rightharpoonup> string) \<Rightarrow> sink_error + sinkParams" where
  "parseSinkURIToParams uri opts =
     (case uri of
        None \<Rightarrow> Inl (ErrInvalidConfig ''empty uri'')
      | Some u \<Rightarrow>
          if url_Scheme u \<noteq> ''mysql'' \<and> url_Scheme u \<noteq> ''tidb'' then
            Inl (ErrInvalidConfig ''scheme'')
          else
            (let q = url_Query u;
                 p0 = defaultParams
                   \<lparr>changefeedID := (case opts OptChangefeedID of None \<Rightarrow> [] | Some v \<Rightarrow> v),
                    captureAddr := (case opts OptCaptureAddr of None \<Rightarrow> [] | Some v \<Rightarrow> v)\<rparr>
             in andThen (intParam q ''worker-count'' (\<lambda>n p. p\<lparr>workerCount := n\<rparr>) p0) (\<lambda>p1.
                andThen (intParam q ''max-txn-row'' (\<lambda>n p. p\<lparr>maxTxnRow := n\<rparr>) p1) (\<lambda>p2.
                andThen (txnModeParam q p2) (\<lambda>p3.
                andThen (boolParam q ''batch-replace-enable'' (\<lambda>b p. p\<lparr>batchReplaceEnabled := b\<rparr>) p3) (\<lambda>p4.
                andThen (intParam q ''batch-replace-size'' (\<lambda>n p. p\<lparr>batchReplaceSize := n\<rparr>) p4) (\<lambda>p5.
                andThen (boolParam q ''safe-mode'' (\<lambda>b p. p\<lparr>safeMode := b\<rparr>) p5) (\<lambda>p6.
                andThen (durationParam q ''read-timeout'' (\<lambda>d p. p\<lparr>readTimeout := d\<rparr>) p6) (\<lambda>p7.
                andThen (durationParam q ''write-timeout'' (\<lambda>d p. p\<lparr>writeTimeout := d\<rparr>) p7) (\<lambda>p8.
                andThen (durationParam q ''timeout'' (\<lambda>d p. p\<lparr>dialTimeout := d\<rparr>) p8) (\<lambda>p9.
                andThen (timezoneParam q p9) (\<lambda>p10.
                tlsParam q p10))))))))))))"

subsection \<open>Rendering the DSN\<close>

text \<open>
  The driver's \<open>Config\<close> with the fields that its \<open>FormatDSN\<close> shows here, and
  \<open>FormatDSN\<close>: \<open>user:passwd@net(addr)/dbname?k=v&k=v\<close> with each value escaped by
  \<open>url.QueryEscape\<close>. The driver's map of parameters is a list of pairs with distinct
  keys; \<open>FormatDSN\<close> writes them sorted by key (\<open>sort.Strings\<close>, the order of the bytes).
\<close>

record DSNConfig =
  dsn_User :: string
  dsn_Passwd :: string
  dsn_Net :: string
  dsn_Addr :: string
  dsn_DBName :: string
  dsn_Params :: "(string \<times> string) list"

definition hexDigit :: "nat \<Rightarrow> char" where
  "hexDigit n = ''0123456789ABCDEF'' ! (n mod 16)"

definition unreserved :: "char \<Rightarrow> bool" where
  "unreserved c =
     (c \<in> set ''abcdefghijklmnopqrstuvwxyzABCDEFGHIJKLMNOPQRSTUVWXYZ0123456789-_.~'')"

definition escapeChar :: "char \<Rightarrow> string" where
  "escapeChar c =
     (if unreserved c then [c]
      else if c = CHR '' '' then ''+''
      else [CHR ''%'', hexDigit (of_char c div 16), hexDigit (of_char c mod 16)])"

definition QueryEscape :: "string \<Rightarrow> string" where
  "QueryEscape s = concat (map escapeChar s)"

fun joinParams :: "(string \<times> string) list \<Rightarrow> string" where
  "joinParams [] = []"
| "joinParams [(k, v)] = k @ ''='' @ QueryEscape v"
| "joinParams ((k, v) # rest) = k @ ''='' @ QueryEscape v @ ''&'' @ joinParams rest"

text \<open>Go's \<open><\<close> on strings, and the parameters sorted by key.\<close>

fun strLess :: "string \<Rightarrow> string \<Rightarrow> bool" where
  "strLess [] [] = False"
| "strLess [] (y # ys) = True"
| "strLess (x # xs) [] = False"
| "strLess (x # xs) (y # ys) =
     ((of_char x :: nat) < of_char y \<or> (x = y \<and> strLess xs ys))"

fun insertByKey :: "string \<times> string \<Rightarrow> (string \<times> string) list \<Rightarrow> (string \<times> string) list" where
  "insertByKey p [] = [p]"
| "insertByKey p (q # qs) =
     (if strLess (fst q) (fst p) then q # insertByKey p qs else p # q # qs)"

definition sortByKey :: "(string \<times> string) list \<Rightarrow> (string \<times> string) list" where
  "sortByKey ps = foldr insertByKey ps []"

definition FormatDSN :: "DSNConfig \<Rightarrow> string" where
  "FormatDSN c =
     (if dsn_User c = [] then []
      else dsn_User c @ (if dsn_Passwd c = [] then [] else '':'' @ dsn_Passwd c) @ ''@'')
     @ (if dsn_Net c = [] then []
        else dsn_Net c @ (if dsn_Addr c = [] then [] else ''('' @ dsn_Addr c @ '')''))
     @ ''/'' @ dsn_DBName c
     @ (if dsn_Params c = [] then [] else ''?'' @ joinParams (sortByKey (dsn_Params c)))"

text \<open>\<open>cfg.Params[k] = v\<close> on the list of pairs.\<close>

fun setParam :: "string \<Rightarrow> string \<Rightarrow> (string \<times> string) list \<Rightarrow> (string \<times> string) list" where
  "setParam k v [] = [(k, v)]"
| "setParam k v ((k', v') # ps) = (if k' = k then (k, v) # ps else (k', v') # setParam k v ps)"

text \<open>Go's \<open>strings.Contains\<close>.\<close>

definition Contains :: "string \<Rightarrow> string \<Rightarrow> bool" where
  "Contains s substr = sublist substr s"

text \<open>
  The downstream database as the probe sees it: what \<open>show session variables like\<close>
  answers for a variable name.
\<close>

datatype probe = Rows string | NoRows | ConnError string

text \<open>
  Modelled from the spec: \<open>checkTiDBVariable\<close> (not among the sources), as the spec and
  \<open>TestCheckTiDBVariable\<close> describe it: a variable that the downstream has yields the
  wanted value, an absent one the empty string and no error, and a connection error is
  returned.
\<close>

definition checkTiDBVariable :: "(string \<Rightarrow> probe) \<Rightarrow> string \<Rightarrow> string \<Rightarrow> sink_error + string" where
  "checkTiDBVariable db name defaultValue =
     (case db name of
        Rows v \<Rightarrow> Inr defaultValue
      | NoRows \<Rightarrow> Inr []
      | ConnError e \<Rightarrow> Inl (ErrConnection e))"

text \<open>
  Modelled from the spec: the parameters that \<open>generateDSNByParams\<close> (not among the
  sources) sets in the driver's config: \<open>time_zone\<close> only if the timezone is not empty;
  \<open>readTimeout\<close>, \<open>writeTimeout\<close>, \<open>allow_auto_random_explicit_insert=1\<close> and
  \<open>tidb_txn_mode\<close> always; \<open>timeout\<close> only if the user provided it, which the parameter
  record shows as a dial timeout other than the default.
\<close>

definition configureDSN :: "DSNConfig \<Rightarrow> sinkParams \<Rightarrow> DSNConfig" where
  "configureDSN dsn p =
     (let ps0 = dsn_Params dsn;
          ps1 = (if timezone p \<noteq> [] then setParam ''time_zone'' (timezone p) ps0 else ps0);
          ps2 = setParam ''readTimeout'' (readTimeout p) ps1;
          ps3 = setParam ''writeTimeout'' (writeTimeout p) ps2;
          ps4 = (if dialTimeout p \<noteq> dialTimeout defaultParams
                 then setParam ''timeout'' (dialTimeout p) ps3 else ps3);
          ps5 = setParam ''allow_auto_random_explicit_insert'' ''1'' ps4;
          ps6 = setParam ''tidb_txn_mode'' (tidbTxnMode p) ps5
      in dsn\<lparr>dsn_Params := ps6\<rparr>)"

text \<open>
  Modelled from the spec: \<open>generateDSNByParams\<close> (not among the sources). It probes the
  downstream for \<open>allow_auto_random_explicit_insert\<close>; a connection error is returned,
  and otherwise the configured DSN is rendered.
\<close>

definition generateDSNByParams ::
  "DSNConfig \<Rightarrow> sinkParams \<Rightarrow> (string \<Rightarrow> probe) \<Rightarrow> sink_error + string" where
  "generateDSNByParams dsn p db =
     (case checkTiDBVariable db ''allow_auto_random_explicit_insert'' ''1'' of
        Inl e \<Rightarrow> Inl e
      | Inr v \<Rightarrow> Inr (FormatDSN (configureDSN dsn p)))"

text \<open>
  The base DSN of \<open>TestGenerateDSNByParams\<close>, \<open>root:123456@tcp(127.0.0.1:4000)/\<close>, a
  downstream that has the variable \<open>allow_auto_random_explicit_insert\<close> (the test's own
  \<open>mockTestDB\<close> is not among the sources), and the URIs of the tests with a given query.
\<close>

definition testDSN :: DSNConfig where
  "testDSN =
     \<lparr>dsn_User = ''root'', dsn_Passwd = ''123456'', dsn_Net = ''tcp'',
      dsn_Addr = ''127.0.0.1:4000'', dsn_DBName = [], dsn_Params = []\<rparr>"

definition mockTestDB :: "string \<Rightarrow> probe" where
  "mockTestDB name =
     (if name = ''allow_auto_random_explicit_insert'' then Rows ''0'' else NoRows)"

definition testURI :: "(string \<times> string) list \<Rightarrow> URL" where
  "testURI q = \<lparr>url_Scheme = ''mysql'', url_Host = ''127.0.0.1:3306'', url_Query = q\<rparr>"

section \<open>Properties of the redo log manager\<close>

subsection \<open>The binary search on an ascending list of table ids\<close>

declare search_loop.simps [simp del]

lemma search_loop_spec:
  assumes "i \<le> j" "j \<le> n"
    and "\<forall>k<i. \<not> f k"
    and "\<forall>k. j \<le> k \<and> k < n \<longrightarrow> f k"
    and "\<forall>a b. a \<le> b \<and> b < n \<and> f a \<longrightarrow> f b"
  shows "i \<le> search_loop f i j \<and> search_loop f i j \<le> j
         \<and> (\<forall>k. k < search_loop f i j \<longrightarrow> \<not> f k)
         \<and> (\<forall>k. search_loop f i j \<le> k \<and> k < n \<longrightarrow> f k)"
  using assms
proof (induction f i j rule: search_loop.induct)
  case (1 f i j)
  show ?case
  proof (cases "i < j")
    case False
    then have "search_loop f i j = i" by (subst search_loop.simps) simp
    with False "1.prems" show ?thesis by auto
  next
    case True
    define h where "h = (i + j) div 2"
    have hb: "i \<le> h" "h < j" using True by (simp_all add: h_def)
    show ?thesis
    proof (cases "f h")
      case fh: True
      have mono: "\<forall>k. h \<le> k \<and> k < n \<longrightarrow> f k"
        using "1.prems"(5) fh by blast
      have eq: "search_loop f i j = search_loop f i h"
        using True fh by (subst search_loop.simps) (simp add: h_def Let_def)
      have "i \<le> search_loop f i h \<and> search_loop f i h \<le> h
         \<and> (\<forall>k. k < search_loop f i h \<longrightarrow> \<not> f k)
         \<and> (\<forall>k. search_loop f i h \<le> k \<and> k < n \<longrightarrow> f k)"
        using "1.IH"(2) [OF True h_def _ hb(1) _ "1.prems"(3) mono "1.prems"(5)] fh hb "1.prems"(2)
        by simp
      with eq hb show ?thesis by auto
    next
      case nfh: False
      have below: "\<forall>k<h + 1. \<not> f k"
      proof (intro allI impI)
        fix k assume "k < h + 1"
        then have "k \<le> h" by simp
        show "\<not> f k"
        proof
          assume "f k"
          with \<open>k \<le> h\<close> hb "1.prems"(2,5) have "f h"
            by (meson le_trans less_le_trans)
          with nfh show False by simp
        qed
      qed
      have eq: "search_loop f i j = search_loop f (h + 1) j"
        using True nfh by (subst search_loop.simps) (simp add: h_def Let_def)
      have "h + 1 \<le> search_loop f (h + 1) j \<and> search_loop f (h + 1) j \<le> j
         \<and> (\<forall>k. k < search_loop f (h + 1) j \<longrightarrow> \<not> f k)
         \<and> (\<forall>k. search_loop f (h + 1) j \<le> k \<and> k < n \<longrightarrow> f k)"
        using "1.IH"(1) [OF True h_def nfh _ "1.prems"(2) below "1.prems"(4) "1.prems"(5)] hb
        by simp
      with eq hb show ?thesis by auto
    qed
  qed
qed

lemma ascending_nth:
  "ascending ids \<Longrightarrow> a \<le> b \<Longrightarrow> b < length ids \<Longrightarrow> word_sle (ids ! a) (ids ! b)"
  unfolding ascending_def
  by (cases "a = b") (auto simp: sorted_wrt_iff_nth_less signed.less_imp_le)

lemma Search_tableIDs:
  fixes ids :: "TableID list" and t :: TableID
  assumes "ascending ids"
  defines "r \<equiv> Search (length ids) (\<lambda>i. word_sle t (ids ! i))"
  shows "r \<le> length ids"
    and "\<forall>k. k < r \<longrightarrow> word_sless (ids ! k) t"
    and "\<forall>k. r \<le> k \<and> k < length ids \<longrightarrow> word_sle t (ids ! k)"
proof -
  let ?f = "\<lambda>i. word_sle t (ids ! i)"
  have mono: "\<forall>a b. a \<le> b \<and> b < length ids \<and> ?f a \<longrightarrow> ?f b"
    using ascending_nth [OF assms(1)] by (meson signed.order_trans)
  have "0 \<le> search_loop ?f 0 (length ids) \<and> search_loop ?f 0 (length ids) \<le> length ids
         \<and> (\<forall>k. k < search_loop ?f 0 (length ids) \<longrightarrow> \<not> ?f k)
         \<and> (\<forall>k. search_loop ?f 0 (length ids) \<le> k \<and> k < length ids \<longrightarrow> ?f k)"
    by (rule search_loop_spec) (use mono in auto)
  then show "r \<le> length ids"
    and "\<forall>k. k < r \<longrightarrow> word_sless (ids ! k) t"
    and "\<forall>k. r \<le> k \<and> k < length ids \<longrightarrow> word_sle t (ids ! k)"
    by (simp_all add: r_def Search_def signed.not_le)
qed

lemma Search_found_iff:
  fixes ids :: "TableID list" and t :: TableID
  assumes "ascending ids"
  defines "r \<equiv> Search (length ids) (\<lambda>i. word_sle t (ids ! i))"
  shows "(r < length ids \<and> ids ! r = t) \<longleftrightarrow> t \<in> set ids"
proof
  assume "r < length ids \<and> ids ! r = t"
  then show "t \<in> set ids" by (metis nth_mem)
next
  assume "t \<in> set ids"
  then obtain k where k: "k < length ids" "ids ! k = t" by (auto simp: in_set_conv_nth)
  note S = Search_tableIDs [OF assms(1), of t, folded r_def]
  have "\<not> k < r" using S(2) k by (metis signed.less_irrefl)
  then have rk: "r \<le> k" by simp
  then have rl: "r < length ids" using k by simp
  have "word_sle t (ids ! r)" using S(3) rl by simp
  moreover have "word_sle (ids ! r) t" using ascending_nth [OF assms(1) rk k(1)] k by simp
  ultimately show "r < length ids \<and> ids ! r = t" using rl by (simp add: signed.order_antisym)
qed

lemma insert_slice:
  "r < length ids \<Longrightarrow> (take (Suc r) ids @ drop r ids)[r := t] = take r ids @ t # drop r ids"
  by (simp add: take_Suc_conv_app_nth list_update_append)

lemma remove_slice:
  assumes "r < length ids"
  shows "take (length (copy_at ids r (drop (r + 1) ids)) - 1) (copy_at ids r (drop (r + 1) ids))
         = take r ids @ drop (r + 1) ids"
  using assms by (simp add: copy_at_def)

lemma ascending_insert:
  fixes ids :: "TableID list" and t :: TableID
  assumes asc: "ascending ids" and notin: "t \<notin> set ids"
  defines "r \<equiv> Search (length ids) (\<lambda>i. word_sle t (ids ! i))"
  shows "ascending (take r ids @ t # drop r ids)"
proof -
  note S = Search_tableIDs [OF asc, of t, folded r_def]
  have split: "sorted_wrt word_sless (take r ids) \<and> sorted_wrt word_sless (drop r ids)
      \<and> (\<forall>x\<in>set (take r ids). \<forall>y\<in>set (drop r ids). word_sless x y)"
    using asc sorted_wrt_append [of word_sless "take r ids" "drop r ids"]
    by (simp add: ascending_def)
  have lo: "\<forall>x\<in>set (take r ids). word_sless x t"
    using S(1,2) by (auto simp: in_set_conv_nth)
  have hi: "\<forall>y\<in>set (drop r ids). word_sless t y"
  proof
    fix y assume y: "y \<in> set (drop r ids)"
    then obtain k where k: "k < length ids - r" "y = ids ! (r + k)"
      by (auto simp: in_set_conv_nth)
    then have "word_sle t y" using S(3) by simp
    moreover have "y \<noteq> t" using y notin by (metis in_set_dropD)
    ultimately show "word_sless t y" by (simp add: signed.less_le)
  qed
  show ?thesis
    unfolding ascending_def
    using split lo hi by (auto simp: sorted_wrt_append)
qed

lemma ascending_remove:
  fixes ids :: "TableID list"
  assumes asc: "ascending ids" and r: "r < length ids"
  shows "ascending (take r ids @ drop (r + 1) ids)"
    and "set (take r ids @ drop (r + 1) ids) = set ids - {ids ! r}"
proof -
  have ids: "ids = take r ids @ ids ! r # drop (Suc r) ids"
    using r by (rule id_take_nth_drop)
  have sw: "sorted_wrt word_sless (take r ids @ ids ! r # drop (Suc r) ids)"
    using asc ids by (simp add: ascending_def)
  then show "ascending (take r ids @ drop (r + 1) ids)"
    by (auto simp: ascending_def sorted_wrt_append)
  have "ids ! r \<notin> set (take r ids)" "ids ! r \<notin> set (drop (Suc r) ids)"
    using sw by (auto simp: sorted_wrt_append)
  moreover have "set ids = set (take r ids) \<union> {ids ! r} \<union> set (drop (Suc r) ids)"
    by (subst ids) auto
  ultimately show "set (take r ids @ drop (r + 1) ids) = set ids - {ids ! r}"
    by auto
qed

subsection \<open>AddTable and RemoveTable keep the table bookkeeping consistent\<close>

lemma AddTable_present:
  assumes "ascending (tableIDs m)" "t \<in> set (tableIDs m)"
  shows "AddTable m t s = Inr m"
  using Search_found_iff [OF assms(1), of t] assms(2)
  by (simp add: AddTable_def Let_def)

lemma AddTable_absent:
  assumes asc: "ascending (tableIDs m)" and notin: "t \<notin> set (tableIDs m)"
    and rts: "rtsMap m = Some f"
  shows "\<exists>ids'. AddTable m t s = Inr (m\<lparr>tableIDs := ids', rtsMap := Some (f(t \<mapsto> s))\<rparr>)
           \<and> ascending ids' \<and> set ids' = insert t (set (tableIDs m))"
proof -
  define r where "r = Search (length (tableIDs m)) (\<lambda>i. word_sle t (tableIDs m ! i))"
  define ids' where "ids' = take r (tableIDs m) @ t # drop r (tableIDs m)"
  have rle: "r \<le> length (tableIDs m)"
    using Search_tableIDs(1) [OF asc, of t] by (simp add: r_def)
  have nf: "\<not> (r < length (tableIDs m) \<and> tableIDs m ! r = t)"
    using Search_found_iff [OF asc, of t] notin by (simp add: r_def)
  have shape: "(if r = length (tableIDs m) then tableIDs m @ [t]
        else (take (r + 1) (tableIDs m) @ drop r (tableIDs m))[r := t]) = ids'"
    using rle by (auto simp: ids'_def insert_slice simp del: list_update.simps)
  have "AddTable m t s =
      (case rtsMap m of None \<Rightarrow> Inl NilMapAssignment
       | Some rts \<Rightarrow> Inr (m\<lparr>tableIDs := ids', rtsMap := Some (rts(t \<mapsto> s))\<rparr>))"
    unfolding AddTable_def Let_def r_def [symmetric] shape by (simp only: if_not_P [OF nf])
  then have run: "AddTable m t s = Inr (m\<lparr>tableIDs := ids', rtsMap := Some (f(t \<mapsto> s))\<rparr>)"
    by (simp only: rts option.case)
  have asc': "ascending ids'"
    unfolding ids'_def r_def by (rule ascending_insert [OF asc notin])
  have "set (take r (tableIDs m)) \<union> set (drop r (tableIDs m)) = set (tableIDs m)"
    by (metis append_take_drop_id set_append)
  then have "set ids' = insert t (set (tableIDs m))"
    by (auto simp: ids'_def)
  with run asc' show ?thesis by blast
qed

lemma RemoveTable_absent:
  assumes "ascending (tableIDs m)" "t \<notin> set (tableIDs m)"
  shows "RemoveTable m t = m"
  using Search_found_iff [OF assms(1), of t] assms(2)
  by (auto simp: RemoveTable_def Let_def)

lemma RemoveTable_present:
  assumes asc: "ascending (tableIDs m)" and isin: "t \<in> set (tableIDs m)"
  shows "\<exists>ids'. RemoveTable m t = m\<lparr>tableIDs := ids',
             rtsMap := map_option (\<lambda>rts. rts(t := None)) (rtsMap m)\<rparr>
           \<and> ascending ids' \<and> set ids' = set (tableIDs m) - {t}"
proof -
  define r where "r = Search (length (tableIDs m)) (\<lambda>i. word_sle t (tableIDs m ! i))"
  have f: "r < length (tableIDs m)" "tableIDs m ! r = t"
    using Search_found_iff [OF asc, of t] isin by (simp_all add: r_def)
  have "RemoveTable m t = m\<lparr>tableIDs := take r (tableIDs m) @ drop (r + 1) (tableIDs m),
             rtsMap := map_option (\<lambda>rts. rts(t := None)) (rtsMap m)\<rparr>"
    using f remove_slice [OF f(1)] unfolding RemoveTable_def Let_def r_def [symmetric] by simp
  moreover have "ascending (take r (tableIDs m) @ drop (r + 1) (tableIDs m))"
    by (rule ascending_remove(1) [OF asc f(1)])
  moreover have "set (take r (tableIDs m) @ drop (r + 1) (tableIDs m)) = set (tableIDs m) - {t}"
    using ascending_remove(2) [OF asc f(1)] f(2) by simp
  ultimately show ?thesis by blast
qed

lemma AddTable_consistent:
  assumes c: "tablesConsistent m" and nn: "rtsMap m \<noteq> None"
  shows "\<exists>m'. AddTable m t s = Inr m' \<and> tablesConsistent m' \<and> rtsMap m' \<noteq> None"
proof (cases "t \<in> set (tableIDs m)")
  case True
  then have "AddTable m t s = Inr m"
    using c by (simp add: tablesConsistent_def AddTable_present)
  with c nn show ?thesis by simp
next
  case False
  from nn obtain f where f: "rtsMap m = Some f" by auto
  from c have asc: "ascending (tableIDs m)" and d: "dom f = set (tableIDs m)"
    using f by (simp_all add: tablesConsistent_def rtsKeys_def)
  from AddTable_absent [OF asc False f, of s] obtain ids' where
    r: "AddTable m t s = Inr (m\<lparr>tableIDs := ids', rtsMap := Some (f(t \<mapsto> s))\<rparr>)"
    and a: "ascending ids'" and st: "set ids' = insert t (set (tableIDs m))"
    by blast
  have "tablesConsistent (m\<lparr>tableIDs := ids', rtsMap := Some (f(t \<mapsto> s))\<rparr>)"
    using a st d by (simp add: tablesConsistent_def rtsKeys_def)
  with r show ?thesis by simp
qed

lemma RemoveTable_consistent:
  assumes c: "tablesConsistent m" and nn: "rtsMap m \<noteq> None"
  shows "tablesConsistent (RemoveTable m t) \<and> rtsMap (RemoveTable m t) \<noteq> None"
proof (cases "t \<in> set (tableIDs m)")
  case False
  then have "RemoveTable m t = m"
    using c by (simp add: tablesConsistent_def RemoveTable_absent)
  with c nn show ?thesis by simp
next
  case True
  from nn obtain f where f: "rtsMap m = Some f" by auto
  from c have asc: "ascending (tableIDs m)" and d: "dom f = set (tableIDs m)"
    using f by (simp_all add: tablesConsistent_def rtsKeys_def)
  from RemoveTable_present [OF asc True] obtain ids' where
    r: "RemoveTable m t = m\<lparr>tableIDs := ids',
             rtsMap := map_option (\<lambda>rts. rts(t := None)) (rtsMap m)\<rparr>"
    and a: "ascending ids'" and st: "set ids' = set (tableIDs m) - {t}"
    by blast
  show ?thesis
    using a st d f by (simp add: r tablesConsistent_def rtsKeys_def)
qed

lemma applyTableOps_consistent:
  assumes "tablesConsistent m" "rtsMap m \<noteq> None"
  shows "\<exists>m'. applyTableOps m ops = Inr m' \<and> tablesConsistent m' \<and> rtsMap m' \<noteq> None"
  using assms
proof (induction ops arbitrary: m)
  case Nil
  then show ?case by simp
next
  case (Cons x xs)
  have "\<exists>m1. applyTableOp m x = Inr m1 \<and> tablesConsistent m1 \<and> rtsMap m1 \<noteq> None"
  proof (cases x)
    case (OpAddTable t s)
    then show ?thesis using AddTable_consistent [OF Cons.prems] by simp
  next
    case (OpRemoveTable t)
    then show ?thesis using RemoveTable_consistent [OF Cons.prems] by simp
  qed
  then obtain m1 where m1: "applyTableOp m x = Inr m1" "tablesConsistent m1" "rtsMap m1 \<noteq> None"
    by blast
  from Cons.IH [OF m1(2,3)] m1(1) show ?case by simp
qed

text \<open>
  Claim C2, as amended. From a manager whose \<open>rtsMap\<close> is allocated (as \<open>NewManager\<close>
  allocates it for an enabled manager) and whose bookkeeping is consistent, every
  sequence of \<open>AddTable\<close> and \<open>RemoveTable\<close> calls runs without a panic and ends in a
  manager where
  the keys of \<open>rtsMap\<close> are exactly the elements of \<open>tableIDs\<close> and \<open>tableIDs\<close> is
  strictly ascending in the signed order of \<open>int64\<close>. There, \<open>AddTable\<close> of a table that
  is present returns the manager unchanged, and so does \<open>RemoveTable\<close> of a table that is
  absent.
\<close>

theorem tables_consistent_after_calls:
  assumes "tablesConsistent m" and "rtsMap m \<noteq> None"
  shows "\<exists>m'. applyTableOps m ops = Inr m'
           \<and> rtsKeys m' = set (tableIDs m') \<and> ascending (tableIDs m')
           \<and> (\<forall>t s. t \<in> set (tableIDs m') \<longrightarrow> AddTable m' t s = Inr m')
           \<and> (\<forall>t. t \<notin> set (tableIDs m') \<longrightarrow> RemoveTable m' t = m')"
proof -
  from applyTableOps_consistent [OF assms, of ops] obtain m' where
    m': "applyTableOps m ops = Inr m'" "tablesConsistent m'" by blast
  then have asc: "ascending (tableIDs m')" and k: "rtsKeys m' = set (tableIDs m')"
    by (simp_all add: tablesConsistent_def)
  show ?thesis
    using m'(1) asc k AddTable_present [OF asc] RemoveTable_absent [OF asc] by blast
qed

text \<open>
  Witness for C2: the manager that \<open>NewManager\<close> builds, then seven calls with a
  duplicate add, a removal of an absent table and a negative table id.
\<close>

theorem tables_consistent_after_calls_witness:
  "tablesConsistent enabledManager \<and> rtsMap enabledManager \<noteq> None
   \<and> map_sum id tableIDs
        (applyTableOps enabledManager
          [OpAddTable 3 150, OpAddTable 1 100, OpAddTable 2 200, OpAddTable 1 7,
           OpRemoveTable 2, OpRemoveTable 9, OpAddTable (- 5) 1]) = Inr [- 5, 1, 3]
   \<and> (\<exists>m'. applyTableOps enabledManager
          [OpAddTable 3 150, OpAddTable 1 100, OpAddTable 2 200, OpAddTable 1 7,
           OpRemoveTable 2, OpRemoveTable 9, OpAddTable (- 5) 1] = Inr m'
           \<and> rtsKeys m' = set (tableIDs m') \<and> ascending (tableIDs m')
           \<and> (\<forall>t s. t \<in> set (tableIDs m') \<longrightarrow> AddTable m' t s = Inr m')
           \<and> (\<forall>t. t \<notin> set (tableIDs m') \<longrightarrow> RemoveTable m' t = m'))"
proof -
  have h1: "tablesConsistent enabledManager"
    by (simp add: tablesConsistent_def rtsKeys_def ascending_def enabledManager_def)
  have h2: "rtsMap enabledManager \<noteq> None"
    by (simp add: enabledManager_def)
  have run: "map_sum id tableIDs
        (applyTableOps enabledManager
          [OpAddTable 3 150, OpAddTable 1 100, OpAddTable 2 200, OpAddTable 1 7,
           OpRemoveTable 2, OpRemoveTable 9, OpAddTable (- 5) 1]) = Inr [- 5, 1, 3]"
    by (simp add: enabledManager_def AddTable_def RemoveTable_def Search_def
        search_loop.simps Let_def copy_at_def word_sle_eq)
  show ?thesis
    using tables_consistent_after_calls [OF h1 h2] h1 h2 run by blast
qed

text \<open>
  Counterexample to C2 as stated, which is about every redo manager: the manager that
  \<open>NewManager\<close> returns for level normal has a nil \<open>rtsMap\<close> and no table, so its
  bookkeeping is consistent; on it \<open>AddTable(1, 100)\<close> appends the table to \<open>tableIDs\<close>
  (line 218) and then panics at the assignment into the nil map (line 223): the call
  does not end in a manager, and in the source the table is in \<open>tableIDs\<close> and not
  among the keys of \<open>rtsMap\<close> when the panic is raised.
\<close>

theorem AddTable_panics_on_disabled_manager_counterexample:
  "NewManager testEnv (Some normalConfig) (Some \<lparr>EnableBgRunner = True\<rparr>)
     = Inr (Inr (disabledManager, False))
   \<and> tablesConsistent (disabledManager :: (TableID \<rightharpoonup> Ts) ManagerImpl)
   \<and> applyTableOps (disabledManager :: (TableID \<rightharpoonup> Ts) ManagerImpl) [OpAddTable 1 100]
       = Inl NilMapAssignment"
  by (simp add: NewManager_def normalConfig_def consistentLevelNormal_def disabledManager_def
      tablesConsistent_def rtsKeys_def ascending_def AddTable_def Search_def search_loop.simps)

subsection \<open>What a tick publishes\<close>

lemma Min_insert_min:
  fixes a b :: "'a::linorder"
  assumes "finite S"
  shows "Min (insert (min a b) S) = Min (insert b (insert a S))"
proof (cases "S = {}")
  case True
  then show ?thesis by (simp add: min.commute)
next
  case False
  with assms show ?thesis by (simp add: min.assoc min.commute min.left_commute)
qed

lemma rts_loop_Some:
  "\<exists>g. rts_loop rep (Some f) mn = Inr (Some g, Min (insert mn (snd ` set rep)))"
proof (induction rep arbitrary: f mn)
  case Nil
  show ?case by simp
next
  case (Cons x rest)
  obtain t r where x: "x = (t, r)" by (cases x)
  have m: "(if r < mn then r else mn) = min r mn" by (auto simp: min_def)
  from Cons [of "f(t \<mapsto> r)" "min r mn"] obtain g where
    "rts_loop rest (Some (f(t \<mapsto> r))) (min r mn) = Inr (Some g, Min (insert (min r mn) (snd ` set rest)))"
    by blast
  then show ?case
    by (simp add: x m Min_insert_min)
qed

lemma tick_success:
  assumes "writer m = Some w"
    and "writer_GetCurrentResolvedTs W (tableIDs m) w = (Inr rep, w')"
    and "rtsMap m = Some f"
  shows "\<exists>g. updateTableResolvedTs W m =
           Inr (None, m\<lparr>writer := Some w',
                         minResolvedTs := Min (insert MaxUint64 (snd ` set rep)),
                         rtsMap := Some g\<rparr>)"
proof -
  from rts_loop_Some [of rep f MaxUint64] obtain g where
    "rts_loop rep (Some f) MaxUint64 = Inr (Some g, Min (insert MaxUint64 (snd ` set rep)))"
    by blast
  then show ?thesis
    using assms by (auto simp: updateTableResolvedTs_def)
qed

lemma unat_MaxUint64: "unat MaxUint64 = 2 ^ 64 - 1"
  by (simp add: MaxUint64_def unsigned_minus_1_eq_mask mask_eq_exp_minus_1)

text \<open>
  Claim C10. When the manager tracks no table and the writer answers the tick with an
  empty map and no error, \<open>updateTableResolvedTs\<close> succeeds and stores
  \<open>math.MaxUint64\<close>, so that \<open>GetMinResolvedTs\<close> then returns \<open>2 ^ 64 - 1\<close>.
\<close>

theorem empty_tick_publishes_max:
  assumes "writer m = Some w" and "tableIDs m = []"
    and "writer_GetCurrentResolvedTs W [] w = (Inr [], w')"
  shows "\<exists>m'. updateTableResolvedTs W m = Inr (None, m')
           \<and> GetMinResolvedTs m' = MaxUint64 \<and> unat (GetMinResolvedTs m') = 2 ^ 64 - 1"
  using assms by (simp add: updateTableResolvedTs_def GetMinResolvedTs_def unat_MaxUint64)

theorem empty_tick_publishes_max_witness:
  "writer enabledManager = Some Map.empty \<and> tableIDs enabledManager = []
   \<and> writer_GetCurrentResolvedTs (tsWriter :: (TableID \<rightharpoonup> Ts, nat, nat) RedoLogWriter) [] Map.empty = (Inr [], Map.empty)
   \<and> (\<exists>m'. updateTableResolvedTs (tsWriter :: (TableID \<rightharpoonup> Ts, nat, nat) RedoLogWriter) enabledManager = Inr (None, m')
           \<and> GetMinResolvedTs m' = MaxUint64 \<and> unat (GetMinResolvedTs m') = 18446744073709551615)"
proof -
  have h1: "writer enabledManager = Some Map.empty" by (simp add: enabledManager_def)
  have h2: "tableIDs enabledManager = []" by (simp add: enabledManager_def)
  have h3: "writer_GetCurrentResolvedTs (tsWriter :: (TableID \<rightharpoonup> Ts, nat, nat) RedoLogWriter) [] Map.empty = (Inr [], Map.empty)"
    by (simp add: tsWriter_def List.map_filter_def)
  show ?thesis
    using empty_tick_publishes_max [OF h1 h2 h3] h1 h2 h3 by simp
qed

subsection \<open>The published minimum along a run\<close>

lemma AddTable_min:
  "AddTable m t s = Inr m' \<Longrightarrow> minResolvedTs m' = minResolvedTs m"
  by (auto simp: AddTable_def Let_def split: if_splits option.splits)

lemma RemoveTable_min: "minResolvedTs (RemoveTable m t) = minResolvedTs m"
  by (simp add: RemoveTable_def Let_def)

lemma FlushLog_min:
  "FlushLog W m t ts = Inr (e, m') \<Longrightarrow> minResolvedTs m' = minResolvedTs m"
  by (auto simp: FlushLog_def split: option.splits prod.splits)

lemma rts_loop_least:
  "rts_loop rep rm mn = Inr (rm', mn') \<Longrightarrow> mn' = Min (insert mn (snd ` set rep))"
proof (induction rep rm mn rule: rts_loop.induct)
  case (1 rm mn)
  then show ?case by simp
next
  case (2 t r rest rm mn)
  from "2.prems" obtain f where f: "rm = Some f" by (cases rm) auto
  have m: "(if r < mn then r else mn) = min r mn" by (auto simp: min_def)
  from "2.prems" f have "rts_loop rest (Some (f(t \<mapsto> r))) (min r mn) = Inr (rm', mn')"
    by (simp add: m)
  from "2.IH" [OF f this [unfolded m [symmetric]]]
  have "mn' = Min (insert (min r mn) (snd ` set rest))" by (simp add: m)
  then show ?case by (simp add: Min_insert_min)
qed

lemma tick_publishes:
  assumes "updateTableResolvedTs W m = Inr (err, m')"
    and "writer m = Some w"
  shows "minResolvedTs m' =
           (case fst (writer_GetCurrentResolvedTs W (tableIDs m) w) of
              Inl e \<Rightarrow> minResolvedTs m
            | Inr rep \<Rightarrow> Min (insert MaxUint64 (snd ` set rep)))"
proof -
  obtain res w' where g: "writer_GetCurrentResolvedTs W (tableIDs m) w = (res, w')"
    by (cases "writer_GetCurrentResolvedTs W (tableIDs m) w")
  show ?thesis
  proof (cases res)
    case (Inl e)
    with assms g show ?thesis by (auto simp: updateTableResolvedTs_def)
  next
    case (Inr rep)
    from assms g Inr obtain rm mn where
      l: "rts_loop rep (rtsMap m) MaxUint64 = Inr (rm, mn)" and mn: "minResolvedTs m' = mn"
      by (auto simp: updateTableResolvedTs_def split: sum.splits prod.splits)
    from rts_loop_least [OF l] mn g Inr show ?thesis by simp
  qed
qed

lemma step_publishes:
  assumes "step W s e = Inr s'"
  shows "minResolvedTs (mgr s') =
           (case tickReport W s e of
              None \<Rightarrow> minResolvedTs (mgr s)
            | Some rep \<Rightarrow> Min (insert MaxUint64 (snd ` set rep)))"
proof (cases e)
  case (EvAddTable t ts)
  with assms show ?thesis
    by (auto simp: tickReport_def split: sum.splits dest: AddTable_min)
next
  case (EvRemoveTable t)
  with assms show ?thesis by (auto simp: tickReport_def RemoveTable_min)
next
  case (EvFlushLog t ts)
  with assms show ?thesis
    by (auto simp: tickReport_def split: sum.splits prod.splits dest: FlushLog_min)
next
  case EvCancel
  with assms show ?thesis by (auto simp: tickReport_def)
next
  case EvTick
  show ?thesis
  proof (cases "bgRunning s")
    case False
    with assms EvTick show ?thesis by (auto simp: tickReport_def)
  next
    case True
    show ?thesis
    proof (cases "writer (mgr s)")
      case None
      with assms EvTick True show ?thesis by (simp add: updateTableResolvedTs_def)
    next
      case (Some w)
      from assms EvTick True obtain err m' where
        u: "updateTableResolvedTs W (mgr s) = Inr (err, m')" and m': "minResolvedTs (mgr s') = minResolvedTs m'"
        by (auto split: sum.splits prod.splits option.splits)
      from tick_publishes [OF u Some] m' EvTick True Some show ?thesis
        by (simp add: tickReport_def split: sum.splits)
    qed
  qed
qed

lemma advances_least:
  assumes "advances earlier later"
  shows "Min (insert MaxUint64 (snd ` set earlier)) \<le> Min (insert MaxUint64 (snd ` set later))"
proof (rule Min.boundedI)
  show "finite (insert MaxUint64 (snd ` set later))" by simp
  show "insert MaxUint64 (snd ` set later) \<noteq> {}" by simp
  fix a assume "a \<in> insert MaxUint64 (snd ` set later)"
  then consider "a = MaxUint64" | t where "(t, a) \<in> set later" by auto
  then show "Min (insert MaxUint64 (snd ` set earlier)) \<le> a"
  proof cases
    case 1
    then show ?thesis by simp
  next
    case 2
    with assms obtain r0 where r0: "(t, r0) \<in> set earlier" "r0 \<le> a"
      by (auto simp: advances_def list_all_iff list_ex_iff)
    from r0(1) have "r0 \<in> insert MaxUint64 (snd ` set earlier)" by force
    then have "Min (insert MaxUint64 (snd ` set earlier)) \<le> r0"
      by (intro Min_le) simp_all
    with r0(2) show ?thesis by simp
  qed
qed

lemma progress_sorted:
  assumes "reportsProgress W s previous evs"
    and "case previous of None \<Rightarrow> minResolvedTs (mgr s) = 0
         | Some earlier \<Rightarrow> minResolvedTs (mgr s) = Min (insert MaxUint64 (snd ` set earlier))"
  shows "sorted (minResolvedTs (mgr s) # observe W s evs)"
  using assms
proof (induction evs arbitrary: s previous)
  case Nil
  show ?case by simp
next
  case (Cons e es)
  show ?case
  proof (cases "step W s e")
    case (Inl p)
    then show ?thesis by simp
  next
    case (Inr s')
    note pub = step_publishes [OF Inr]
    show ?thesis
    proof (cases "tickReport W s e")
      case None
      with pub have same: "minResolvedTs (mgr s') = minResolvedTs (mgr s)" by simp
      from Cons.prems(1) Inr None have rp: "reportsProgress W s' previous es" by simp
      have inv': "case previous of None \<Rightarrow> minResolvedTs (mgr s') = 0
         | Some earlier \<Rightarrow> minResolvedTs (mgr s') = Min (insert MaxUint64 (snd ` set earlier))"
        using Cons.prems(2) same by (simp split: option.splits)
      have "sorted (minResolvedTs (mgr s') # observe W s' es)"
        by (rule Cons.IH [OF rp inv'])
      with same Inr show ?thesis by (simp add: GetMinResolvedTs_def)
    next
      case (Some rep)
      with pub have new: "minResolvedTs (mgr s') = Min (insert MaxUint64 (snd ` set rep))" by simp
      from Cons.prems(1) Inr Some have rest: "reportsProgress W s' (Some rep) es"
        and adv: "case previous of None \<Rightarrow> True | Some earlier \<Rightarrow> advances earlier rep"
        by simp_all
      have le: "minResolvedTs (mgr s) \<le> minResolvedTs (mgr s')"
      proof (cases previous)
        case None
        with Cons.prems(2) show ?thesis by simp
      next
        case (Some earlier)
        with adv Cons.prems(2) new advances_least [of earlier rep] show ?thesis by simp
      qed
      have inv': "case Some rep of None \<Rightarrow> minResolvedTs (mgr s') = 0
         | Some earlier \<Rightarrow> minResolvedTs (mgr s') = Min (insert MaxUint64 (snd ` set earlier))"
        using new by simp
      have "sorted (minResolvedTs (mgr s') # observe W s' es)"
        by (rule Cons.IH [OF rest inv'])
      with le Inr show ?thesis by (auto simp: GetMinResolvedTs_def)
    qed
  qed
qed

text \<open>
  Claim C1, as amended. After every event that does not panic, \<open>GetMinResolvedTs\<close>
  returns the least timestamp of the report when the event is a tick that obtained a
  report from the writer (\<open>math.MaxUint64\<close> when that report is empty), and what it
  returned before otherwise: \<open>AddTable\<close>, \<open>RemoveTable\<close>, \<open>FlushLog\<close>, cancellation and
  a tick without a report leave it unchanged. Hence, from a manager that has published
  nothing yet (\<open>minResolvedTs = 0\<close>, as \<open>NewManager\<close> builds it), along every run in
  which each tick's report advances the report of the tick before it (no new table, no
  table's timestamp taken back), the values that \<open>GetMinResolvedTs\<close> returns never
  decrease.
\<close>

theorem tick_publishes_least_report:
  "(\<forall>s'. step W s e = Inr s' \<longrightarrow>
      GetMinResolvedTs (mgr s') =
        (case tickReport W s e of
           None \<Rightarrow> GetMinResolvedTs (mgr s)
         | Some reported \<Rightarrow> Min (insert MaxUint64 (snd ` set reported))))
   \<and> (GetMinResolvedTs (mgr s) = 0 \<and> reportsProgress W s None evs \<longrightarrow>
        sorted (GetMinResolvedTs (mgr s) # observe W s evs))"
  using step_publishes [of W s e] progress_sorted [of W s None evs]
  by (auto simp: GetMinResolvedTs_def split: option.splits)

lemmas run_simps =
  startSystem_def enabledManager_def tsWriter_def AddTable_def RemoveTable_def FlushLog_def
  updateTableResolvedTs_def GetMinResolvedTs_def Search_def search_loop.simps Let_def
  copy_at_def word_sle_eq wrapErr_def List.map_filter_def MaxUint64_def tickReport_def
  advances_def ackedSystem_def ackedWriter_def

text \<open>
  Witness for C1: a tick on three tables publishes the least of the three reported
  timestamps, and a run with two tables, one of them removed before the last tick.
\<close>

theorem tick_publishes_least_report_witness:
  "tickReport testWriter ackedSystem EvTick = Some [(1, 120), (2, 220), (3, 160)]
   \<and> (\<exists>s'. step testWriter ackedSystem EvTick = Inr s' \<and> GetMinResolvedTs (mgr s') = 120)
   \<and> GetMinResolvedTs (mgr startSystem) = 0
   \<and> reportsProgress testWriter startSystem None
        [EvAddTable 1 100, EvAddTable 2 200, EvFlushLog 1 120, EvFlushLog 2 220, EvTick,
         EvFlushLog 1 130, EvTick, EvRemoveTable 1, EvTick]
   \<and> observe testWriter startSystem
        [EvAddTable 1 100, EvAddTable 2 200, EvFlushLog 1 120, EvFlushLog 2 220, EvTick,
         EvFlushLog 1 130, EvTick, EvRemoveTable 1, EvTick]
       = [0, 0, 0, 0, 120, 120, 130, 130, 220]
   \<and> sorted (GetMinResolvedTs (mgr startSystem) # observe testWriter startSystem
        [EvAddTable 1 100, EvAddTable 2 200, EvFlushLog 1 120, EvFlushLog 2 220, EvTick,
         EvFlushLog 1 130, EvTick, EvRemoveTable 1, EvTick])"
proof -
  let ?evs = "[EvAddTable 1 100, EvAddTable 2 200, EvFlushLog 1 120, EvFlushLog 2 220, EvTick,
         EvFlushLog 1 130, EvTick, EvRemoveTable 1, EvTick]"
  have tr: "tickReport testWriter ackedSystem EvTick = Some [(1, 120), (2, 220), (3, 160)]"
    by (simp add: run_simps)
  have st: "\<exists>s'. step testWriter ackedSystem EvTick = Inr s'"
    by (simp add: run_simps)
  have least: "Min (insert MaxUint64 (snd ` set [(1 :: TableID, 120 :: Ts), (2, 220), (3, 160)])) = 120"
    by (simp add: MaxUint64_def word_le_def unsigned_minus_1_eq_mask mask_eq_exp_minus_1)
  have one: "\<exists>s'. step testWriter ackedSystem EvTick = Inr s' \<and> GetMinResolvedTs (mgr s') = 120"
    using tick_publishes_least_report [of testWriter ackedSystem EvTick "[]"] st tr least
    by auto
  have z: "GetMinResolvedTs (mgr startSystem) = 0"
    by (simp add: run_simps)
  have h: "reportsProgress testWriter startSystem None ?evs"
    by (simp add: run_simps)
  have v: "observe testWriter startSystem ?evs = [0, 0, 0, 0, 120, 120, 130, 130, 220]"
    by (simp add: run_simps)
  have srt: "sorted (GetMinResolvedTs (mgr startSystem) # observe testWriter startSystem ?evs)"
    using tick_publishes_least_report [of testWriter startSystem EvTick ?evs] z h by blast
  from tr one z h v srt show ?thesis by (intro conjI)
qed

text \<open>
  Counterexamples to C1 as stated. A tick before any table is known publishes
  \<open>math.MaxUint64\<close>; after \<open>AddTable(1, 100)\<close> and the writer's acknowledgement of
  \<open>120\<close> for table 1 the next tick publishes \<open>120\<close>, which is smaller. And when the
  writer reports \<open>120\<close> for table 1 at one tick and \<open>110\<close> at the next, the published
  value goes from \<open>120\<close> to \<open>110\<close>. And when table 1 is reported at \<open>220\<close> and table 2
  is then added and reported at \<open>110\<close>, the published value goes from \<open>220\<close> to
  \<open>110\<close>.
\<close>

theorem min_resolved_ts_decreases_counterexample:
  "observe testWriter startSystem [EvTick, EvAddTable 1 100, EvFlushLog 1 120, EvTick]
     = [MaxUint64, MaxUint64, MaxUint64, 120]
   \<and> \<not> sorted (observe testWriter startSystem [EvTick, EvAddTable 1 100, EvFlushLog 1 120, EvTick])
   \<and> observe testWriter startSystem
        [EvAddTable 1 100, EvFlushLog 1 120, EvTick, EvFlushLog 1 110, EvTick]
     = [0, 0, 120, 120, 110]
   \<and> \<not> sorted (observe testWriter startSystem
        [EvAddTable 1 100, EvFlushLog 1 120, EvTick, EvFlushLog 1 110, EvTick])
   \<and> observe testWriter startSystem
        [EvAddTable 1 200, EvFlushLog 1 220, EvTick, EvAddTable 2 100, EvFlushLog 2 110, EvTick]
     = [0, 0, 220, 220, 220, 110]
   \<and> \<not> sorted (observe testWriter startSystem
        [EvAddTable 1 200, EvFlushLog 1 220, EvTick, EvAddTable 2 100, EvFlushLog 2 110, EvTick])"
proof -
  have v: "observe testWriter startSystem [EvTick, EvAddTable 1 100, EvFlushLog 1 120, EvTick]
     = [- 1, - 1, - 1, 120]"
    by (simp add: run_simps)
  have ns: "\<not> sorted [- 1, - 1, - 1, (120 :: Ts)]"
    by (simp add: word_le_def unsigned_minus_1_eq_mask mask_eq_exp_minus_1)
  have w: "observe testWriter startSystem
        [EvAddTable 1 100, EvFlushLog 1 120, EvTick, EvFlushLog 1 110, EvTick]
     = [0, 0, 120, 120, 110]"
    by (simp add: run_simps)
  have nw: "\<not> sorted [0, 0, 120, 120, (110 :: Ts)]"
    by simp
  have x: "observe testWriter startSystem
        [EvAddTable 1 200, EvFlushLog 1 220, EvTick, EvAddTable 2 100, EvFlushLog 2 110, EvTick]
     = [0, 0, 220, 220, 220, 110]"
    by (simp add: run_simps)
  have nx: "\<not> sorted [0, 0, 220, 220, 220, (110 :: Ts)]"
    by simp
  show ?thesis
    unfolding v w x using ns nw nx by (simp add: MaxUint64_def)
qed

subsection \<open>The scenario of three tables\<close>

text \<open>
  Claim C5. On a freshly built enabled manager, after \<open>AddTable\<close> for \<open>1:100\<close>,
  \<open>2:200\<close>, \<open>3:150\<close>, a tick at which the writer reports \<open>{1:120, 2:220, 3:160}\<close>
  (in any iteration order) makes \<open>GetMinResolvedTs\<close> return \<open>120\<close>; after
  \<open>RemoveTable(1)\<close> the next tick, at which the writer reports the two remaining
  tables, makes it return \<open>160\<close>. This holds for every writer.
\<close>

theorem redo_min_ts_scenario:
  assumes m0: "writer m0 = Some w0" "tableIDs m0 = []" "rtsMap m0 = Some Map.empty"
    and r1: "writer_GetCurrentResolvedTs W [1, 2, 3] w0 = (Inr rep1, w1)"
            "set rep1 = {(1, 120), (2, 220), (3, 160)}"
    and r2: "writer_GetCurrentResolvedTs W [2, 3] w1 = (Inr rep2, w2)"
            "set rep2 = {(2, 220), (3, 160)}"
  shows "observe W \<lparr>mgr = m0, bgRunning = True, errCh = []\<rparr>
           [EvAddTable 1 100, EvAddTable 2 200, EvAddTable 3 150, EvTick, EvRemoveTable 1, EvTick]
         = [GetMinResolvedTs m0, GetMinResolvedTs m0, GetMinResolvedTs m0, 120, 120, 160]"
proof -
  define f3 :: "TableID \<rightharpoonup> Ts" where "f3 = [1 \<mapsto> 100, 2 \<mapsto> 200, 3 \<mapsto> 150]"
  define m1 where "m1 = m0\<lparr>tableIDs := [1], rtsMap := Some [1 \<mapsto> 100]\<rparr>"
  define m2 where "m2 = m0\<lparr>tableIDs := [1, 2], rtsMap := Some [1 \<mapsto> 100, 2 \<mapsto> 200]\<rparr>"
  define m3 where "m3 = m0\<lparr>tableIDs := [1, 2, 3], rtsMap := Some f3\<rparr>"
  have a1: "AddTable m0 1 100 = Inr m1"
    by (simp add: AddTable_def m0 m1_def Search_def search_loop.simps)
  have a2: "AddTable m1 2 200 = Inr m2"
    by (simp add: AddTable_def m1_def m2_def Search_def search_loop.simps word_sle_eq)
  have a3: "AddTable m2 3 150 = Inr m3"
    by (simp add: AddTable_def m2_def m3_def f3_def Search_def search_loop.simps word_sle_eq)
  have min1: "Min (insert MaxUint64 (snd ` set rep1)) = (120 :: Ts)"
    by (simp add: r1(2) MaxUint64_def word_le_def unsigned_minus_1_eq_mask mask_eq_exp_minus_1)
  have min2: "Min (insert MaxUint64 (snd ` set rep2)) = (160 :: Ts)"
    by (simp add: r2(2) MaxUint64_def word_le_def unsigned_minus_1_eq_mask mask_eq_exp_minus_1)
  have "writer m3 = Some w0" "tableIDs m3 = [1, 2, 3]" "rtsMap m3 = Some f3"
    by (simp_all add: m3_def m0)
  from tick_success [of m3 w0 W rep1 w1 f3] this r1(1) obtain g1 where
    "updateTableResolvedTs W m3 =
       Inr (None, m3\<lparr>writer := Some w1, minResolvedTs := 120, rtsMap := Some g1\<rparr>)"
    by (auto simp: min1)
  define m4 where "m4 = m3\<lparr>writer := Some w1, minResolvedTs := 120, rtsMap := Some g1\<rparr>"
  have t1: "updateTableResolvedTs W m3 = Inr (None, m4)"
    by (simp add: m4_def \<open>updateTableResolvedTs W m3 = _\<close>)
  define m5 where "m5 = m4\<lparr>tableIDs := [2, 3], rtsMap := Some (g1(1 := None))\<rparr>"
  have rm: "RemoveTable m4 1 = m5"
    by (simp add: RemoveTable_def m4_def m3_def m5_def Search_def search_loop.simps
        word_sle_eq copy_at_def)
  have "writer m5 = Some w1" "tableIDs m5 = [2, 3]" "rtsMap m5 = Some (g1(1 := None))"
    by (simp_all add: m5_def m4_def m3_def)
  from tick_success [of m5 w1 W rep2 w2 "g1(1 := None)"] this r2(1) obtain g2 where
    t2: "updateTableResolvedTs W m5 =
       Inr (None, m5\<lparr>writer := Some w2, minResolvedTs := 160, rtsMap := Some g2\<rparr>)"
    by (auto simp: min2)
  have mins: "minResolvedTs m1 = minResolvedTs m0" "minResolvedTs m2 = minResolvedTs m0"
    "minResolvedTs m3 = minResolvedTs m0" "minResolvedTs m4 = 120" "minResolvedTs m5 = 120"
    by (simp_all add: m1_def m2_def m3_def m4_def m5_def)
  show ?thesis
    by (simp add: a1 a2 a3 t1 rm t2 mins GetMinResolvedTs_def)
qed

theorem redo_min_ts_scenario_witness:
  "writer_GetCurrentResolvedTs testWriter [1, 2, 3] ackedWriter
     = (Inr [(1, 120), (2, 220), (3, 160)], ackedWriter)
   \<and> writer_GetCurrentResolvedTs testWriter [2, 3] ackedWriter
     = (Inr [(2, 220), (3, 160)], ackedWriter)
   \<and> observe testWriter
         \<lparr>mgr = enabledManager\<lparr>writer := Some ackedWriter\<rparr>, bgRunning = True, errCh = []\<rparr>
         [EvAddTable 1 100, EvAddTable 2 200, EvAddTable 3 150, EvTick, EvRemoveTable 1, EvTick]
       = [0, 0, 0, 120, 120, 160]"
proof -
  have h1: "writer (enabledManager\<lparr>writer := Some ackedWriter\<rparr>) = Some ackedWriter"
    and h2: "tableIDs (enabledManager\<lparr>writer := Some ackedWriter\<rparr>) = []"
    and h3: "rtsMap (enabledManager\<lparr>writer := Some ackedWriter\<rparr>) = Some Map.empty"
    by (simp_all add: enabledManager_def)
  have r1: "writer_GetCurrentResolvedTs testWriter [1, 2, 3] ackedWriter
     = (Inr [(1, 120), (2, 220), (3, 160)], ackedWriter)"
    by (simp add: tsWriter_def ackedWriter_def List.map_filter_def)
  have s1: "set [(1 :: TableID, 120 :: Ts), (2, 220), (3, 160)] = {(1, 120), (2, 220), (3, 160)}"
    by simp
  have r2: "writer_GetCurrentResolvedTs testWriter [2, 3] ackedWriter
     = (Inr [(2, 220), (3, 160)], ackedWriter)"
    by (simp add: tsWriter_def ackedWriter_def List.map_filter_def)
  have s2: "set [(2 :: TableID, 220 :: Ts), (3, 160)] = {(2, 220), (3, 160)}"
    by simp
  have g: "GetMinResolvedTs (enabledManager\<lparr>writer := Some ackedWriter\<rparr>) = 0"
    by (simp add: GetMinResolvedTs_def enabledManager_def)
  show ?thesis
    using redo_min_ts_scenario [OF h1 h2 h3 r1 s1 r2 s2] r1 r2 by (simp only: g)
qed

subsection \<open>The disabled manager and construction\<close>

text \<open>
  Claim C3, as amended. The manager that \<open>NewManager\<close> returns for a nil config or for
  level normal has \<open>enabled = false\<close>, a nil writer and a nil \<open>rtsMap\<close>. No method tests
  \<open>enabled\<close>: \<open>Enabled\<close> reports false, \<open>GetMinResolvedTs\<close> returns 0 and \<open>RemoveTable\<close>
  leaves the manager unchanged, while \<open>EmitRowChangedEvents\<close>, \<open>FlushLog\<close>,
  \<open>EmitDDLEvent\<close> and \<open>FlushResolvedAndCheckpointTs\<close> call a method of the nil writer and
  \<open>AddTable\<close> assigns into the nil map, each of which is a panic and not a successful
  return. No writer is invoked, for there is none.
\<close>

theorem disabled_manager_methods:
  fixes W :: "('w, 'r, 'd) RedoLogWriter" and E :: "('w, 'u) Env"
  shows "NewManager E None opts = Inr (Inr (disabledManager, False))
   \<and> (cfg_Level c = consistentLevelNormal \<longrightarrow>
        NewManager E (Some c) opts = Inr (Inr (disabledManager, False)))
   \<and> Enabled (disabledManager :: 'w ManagerImpl) = False
   \<and> writer (disabledManager :: 'w ManagerImpl) = None
   \<and> EmitRowChangedEvents W RowToRedo disabledManager t rows = Inl NilPointerDereference
   \<and> FlushLog W disabledManager t ts = Inl NilPointerDereference
   \<and> EmitDDLEvent W DDLToRedo disabledManager ddl = Inl NilPointerDereference
   \<and> FlushResolvedAndCheckpointTs W disabledManager ts cts = Inl NilPointerDereference
   \<and> AddTable (disabledManager :: 'w ManagerImpl) t ts = Inl NilMapAssignment
   \<and> RemoveTable (disabledManager :: 'w ManagerImpl) t = disabledManager
   \<and> GetMinResolvedTs (disabledManager :: 'w ManagerImpl) = 0"
  by (simp add: NewManager_def disabledManager_def Enabled_def EmitRowChangedEvents_def
      FlushLog_def EmitDDLEvent_def FlushResolvedAndCheckpointTs_def AddTable_def
      RemoveTable_def GetMinResolvedTs_def Search_def search_loop.simps)

text \<open>
  Counterexample to C3 as stated: on the manager built for level normal,
  \<open>EmitRowChangedEvents\<close> and \<open>AddTable\<close> panic.
\<close>

theorem disabled_manager_emit_counterexample:
  "NewManager testEnv (Some normalConfig) (Some \<lparr>EnableBgRunner = True\<rparr>)
     = Inr (Inr (disabledManager, False))
   \<and> EmitRowChangedEvents testWriter (\<lambda>row :: nat. row) disabledManager 1 [7]
     = Inl NilPointerDereference
   \<and> AddTable (disabledManager :: (TableID \<rightharpoonup> Ts) ManagerImpl) 1 100 = Inl NilMapAssignment"
  by (simp add: NewManager_def normalConfig_def consistentLevelNormal_def disabledManager_def
      EmitRowChangedEvents_def AddTable_def Search_def search_loop.simps)

theorem disabled_manager_methods_witness:
  "cfg_Level normalConfig = consistentLevelNormal
   \<and> NewManager testEnv (Some normalConfig) (Some \<lparr>EnableBgRunner = True\<rparr>)
       = Inr (Inr (disabledManager, False))
   \<and> FlushLog testWriter disabledManager 1 120 = Inl NilPointerDereference
   \<and> RemoveTable (disabledManager :: (TableID \<rightharpoonup> Ts) ManagerImpl) 1 = disabledManager"
proof -
  have h: "cfg_Level normalConfig = consistentLevelNormal"
    by (simp add: normalConfig_def consistentLevelNormal_def)
  show ?thesis
    using h disabled_manager_methods
      [where E = testEnv and c = normalConfig and opts = "Some \<lparr>EnableBgRunner = True\<rparr>"
         and W = testWriter and t = 1 and ts = 120 and cts = 100
         and RowToRedo = "\<lambda>row :: nat. row" and rows = "[7]"
         and DDLToRedo = "\<lambda>ddl :: nat. ddl" and ddl = 3]
    by simp
qed

text \<open>
  Claim C4, as amended. \<open>NewManager\<close> fails with \<open>ErrConsistentStorage\<close> whenever the
  level is not normal and the storage is none of local, s3 and blackhole; for level
  normal it returns the disabled manager whatever the storage is. It does not look at
  the level otherwise: \<open>IsValidConsistentLevel\<close> and \<open>IsValidConsistentStorage\<close> hold
  exactly on the two levels and the three storages, and \<open>NewManager\<close> calls neither.
\<close>

theorem NewManager_validation:
  "(cfg_Level c \<noteq> consistentLevelNormal \<and> \<not> IsValidConsistentStorage (cfg_Storage c) \<longrightarrow>
      NewManager E (Some c) opts = Inr (Inl (ErrConsistentStorage (cfg_Storage c))))
   \<and> (cfg_Level c = consistentLevelNormal \<longrightarrow>
      NewManager E (Some c) opts = Inr (Inr (disabledManager, False))
      \<and> \<not> Enabled (disabledManager :: 'w ManagerImpl))
   \<and> (IsValidConsistentLevel l \<longleftrightarrow> l \<in> {''normal'', ''eventual''})
   \<and> (IsValidConsistentStorage st \<longleftrightarrow> st \<in> {''local'', ''s3'', ''blackhole''})"
  by (simp add: NewManager_def Let_def IsValidConsistentStorage_def IsValidConsistentLevel_def
      consistentLevelNormal_def consistentLevelEventual_def consistentStorageLocal_def
      consistentStorageS3_def consistentStorageBlackhole_def disabledManager_def Enabled_def)

theorem NewManager_validation_witness:
  "cfg_Level badStorageConfig \<noteq> consistentLevelNormal
   \<and> \<not> IsValidConsistentStorage (cfg_Storage badStorageConfig)
   \<and> NewManager testEnv (Some badStorageConfig) None = Inr (Inl (ErrConsistentStorage ''tape''))
   \<and> cfg_Level normalConfig = consistentLevelNormal
   \<and> NewManager testEnv (Some normalConfig) None = Inr (Inr (disabledManager, False))"
proof -
  have h1: "cfg_Level badStorageConfig \<noteq> consistentLevelNormal"
    by (simp add: badStorageConfig_def consistentLevelNormal_def)
  have h2: "\<not> IsValidConsistentStorage (cfg_Storage badStorageConfig)"
    by (simp add: badStorageConfig_def IsValidConsistentStorage_def consistentStorageLocal_def
        consistentStorageS3_def consistentStorageBlackhole_def)
  have h3: "cfg_Level normalConfig = consistentLevelNormal"
    by (simp add: normalConfig_def consistentLevelNormal_def)
  have s: "cfg_Storage badStorageConfig = ''tape''"
    by (simp add: badStorageConfig_def)
  show ?thesis
    using h1 h2 h3 s
      NewManager_validation [where E = testEnv and c = badStorageConfig and opts = None]
      NewManager_validation [where E = testEnv and c = normalConfig and opts = None]
    by metis
qed

text \<open>
  Counterexample to C4 as stated: level \<open>bogus\<close> on blackhole storage yields an enabled
  manager, not an error.
\<close>

theorem NewManager_accepts_unknown_level_counterexample:
  "\<not> IsValidConsistentLevel (cfg_Level bogusLevelConfig)
   \<and> NewManager testEnv (Some bogusLevelConfig) (Some \<lparr>EnableBgRunner = False\<rparr>)
       = Inr (Inr (enabledManager\<lparr>level := ''bogus''\<rparr>, False))"
  by (simp add: bogusLevelConfig_def IsValidConsistentLevel_def consistentLevelNormal_def
      consistentLevelEventual_def NewManager_def Let_def consistentStorageBlackhole_def
      testEnv_def enabledManager_def)

section \<open>Properties of the sink parameters\<close>

subsection \<open>Clone\<close>

lemma Clone_deep_copy:
  assumes "p < length h"
  shows "Clone h p = Inr (length h, h @ [h ! p])"
    and "(h @ [h ! p]) ! length h = h ! p"
    and "\<exists>h'. assign (h @ [h ! p]) (length h) upd = Inr h' \<and> h' ! p = h ! p
           \<and> h' ! length h = upd (h ! p)"
  using assms by (simp_all add: Clone_def assign_def nth_append)

text \<open>
  Claim C6. In any store that holds the default record, \<open>p1 = default.Clone()\<close> and
  \<open>p2 = p1.Clone()\<close> succeed, and so do the assignments \<open>p2.changefeedID = "123"\<close>,
  \<open>p2.batchReplaceEnabled = false\<close> and \<open>p2.maxTxnRow = 1\<close>; after them the record at
  \<open>p1\<close> still is the default record, written out field by field, the record at \<open>p2\<close>
  differs from it in exactly the three assigned fields, and the default record itself is
  unchanged.
\<close>

theorem Clone_isolation:
  assumes "d < length h" and "h ! d = defaultParams"
  shows "\<exists>p1 h1 p2 h2 h3 h4 h5.
           Clone h d = Inr (p1, h1) \<and> Clone h1 p1 = Inr (p2, h2)
           \<and> assign h2 p2 (\<lambda>p. p\<lparr>changefeedID := ''123''\<rparr>) = Inr h3
           \<and> assign h3 p2 (\<lambda>p. p\<lparr>batchReplaceEnabled := False\<rparr>) = Inr h4
           \<and> assign h4 p2 (\<lambda>p. p\<lparr>maxTxnRow := 1\<rparr>) = Inr h5
           \<and> h5 ! p1 =
                \<lparr>workerCount = 16, maxTxnRow = 256, tidbTxnMode = ''optimistic'',
                 batchReplaceEnabled = True, batchReplaceSize = 20, readTimeout = ''2m'',
                 writeTimeout = ''2m'', dialTimeout = ''2s'', safeMode = False,
                 timezone = [], changefeedID = [], captureAddr = [], tlsMaterial = None\<rparr>
           \<and> h5 ! p2 =
                \<lparr>workerCount = 16, maxTxnRow = 1, tidbTxnMode = ''optimistic'',
                 batchReplaceEnabled = False, batchReplaceSize = 20, readTimeout = ''2m'',
                 writeTimeout = ''2m'', dialTimeout = ''2s'', safeMode = False,
                 timezone = [], changefeedID = ''123'', captureAddr = [], tlsMaterial = None\<rparr>
           \<and> h5 ! d = defaultParams"
proof -
  define p2 where "p2 = Suc (length h)"
  define h1 where "h1 = h @ [h ! d]"
  define h2 where "h2 = h1 @ [h1 ! length h]"
  define h3 where "h3 = h2[p2 := (h2 ! p2)\<lparr>changefeedID := ''123''\<rparr>]"
  define h4 where "h4 = h3[p2 := (h3 ! p2)\<lparr>batchReplaceEnabled := False\<rparr>]"
  define h5 where "h5 = h4[p2 := (h4 ! p2)\<lparr>maxTxnRow := 1\<rparr>]"
  have c1: "Clone h d = Inr (length h, h1)"
    using assms(1) by (simp add: Clone_def h1_def)
  have c2: "Clone h1 (length h) = Inr (p2, h2)"
    by (simp add: Clone_def h1_def h2_def p2_def)
  have len: "length h2 = Suc (Suc (length h))" "length h3 = Suc (Suc (length h))"
    "length h4 = Suc (Suc (length h))"
    by (simp_all add: h1_def h2_def h3_def h4_def)
  have a1: "assign h2 p2 (\<lambda>p. p\<lparr>changefeedID := ''123''\<rparr>) = Inr h3"
    and a2: "assign h3 p2 (\<lambda>p. p\<lparr>batchReplaceEnabled := False\<rparr>) = Inr h4"
    and a3: "assign h4 p2 (\<lambda>p. p\<lparr>maxTxnRow := 1\<rparr>) = Inr h5"
    by (simp_all add: assign_def len p2_def h3_def h4_def h5_def)
  have v: "h2 ! d = defaultParams" "h2 ! length h = defaultParams" "h2 ! p2 = defaultParams"
    using assms by (simp_all add: h1_def h2_def p2_def nth_append)
  have r1: "h5 ! length h =
        \<lparr>workerCount = 16, maxTxnRow = 256, tidbTxnMode = ''optimistic'',
         batchReplaceEnabled = True, batchReplaceSize = 20, readTimeout = ''2m'',
         writeTimeout = ''2m'', dialTimeout = ''2s'', safeMode = False,
         timezone = [], changefeedID = [], captureAddr = [], tlsMaterial = None\<rparr>"
    using v(2) len by (simp add: h5_def h4_def h3_def p2_def defaultParams_def)
  have r2: "h5 ! p2 =
        \<lparr>workerCount = 16, maxTxnRow = 1, tidbTxnMode = ''optimistic'',
         batchReplaceEnabled = False, batchReplaceSize = 20, readTimeout = ''2m'',
         writeTimeout = ''2m'', dialTimeout = ''2s'', safeMode = False,
         timezone = [], changefeedID = ''123'', captureAddr = [], tlsMaterial = None\<rparr>"
    using v(3) len by (simp add: h5_def h4_def h3_def p2_def defaultParams_def)
  have r3: "h5 ! d = defaultParams"
    using v(1) assms(1) len by (simp add: h5_def h4_def h3_def p2_def)
  from c1 c2 a1 a2 a3 r1 r2 r3 show ?thesis by blast
qed

text \<open>Witness for C6: the store that holds the default record only.\<close>

theorem Clone_isolation_witness:
  "(0 :: nat) < length [defaultParams] \<and> [defaultParams] ! 0 = defaultParams
   \<and> Clone [defaultParams] 0 = Inr (1, [defaultParams, defaultParams])
   \<and> Clone [defaultParams, defaultParams] 1 = Inr (2, [defaultParams, defaultParams, defaultParams])
   \<and> assign [defaultParams, defaultParams, defaultParams] 2 (\<lambda>p. p\<lparr>changefeedID := ''123''\<rparr>)
       = Inr [defaultParams, defaultParams, defaultParams\<lparr>changefeedID := ''123''\<rparr>]
   \<and> assign [defaultParams, defaultParams, defaultParams] 7 (\<lambda>p. p\<lparr>changefeedID := ''123''\<rparr>)
       = Inl NilPointerDereference
   \<and> (\<exists>p1 h1 p2 h2 h3 h4 h5.
           Clone [defaultParams] 0 = Inr (p1, h1) \<and> Clone h1 p1 = Inr (p2, h2)
           \<and> assign h2 p2 (\<lambda>p. p\<lparr>changefeedID := ''123''\<rparr>) = Inr h3
           \<and> assign h3 p2 (\<lambda>p. p\<lparr>batchReplaceEnabled := False\<rparr>) = Inr h4
           \<and> assign h4 p2 (\<lambda>p. p\<lparr>maxTxnRow := 1\<rparr>) = Inr h5
           \<and> h5 ! p1 =
                \<lparr>workerCount = 16, maxTxnRow = 256, tidbTxnMode = ''optimistic'',
                 batchReplaceEnabled = True, batchReplaceSize = 20, readTimeout = ''2m'',
                 writeTimeout = ''2m'', dialTimeout = ''2s'', safeMode = False,
                 timezone = [], changefeedID = [], captureAddr = [], tlsMaterial = None\<rparr>
           \<and> h5 ! p2 =
                \<lparr>workerCount = 16, maxTxnRow = 1, tidbTxnMode = ''optimistic'',
                 batchReplaceEnabled = False, batchReplaceSize = 20, readTimeout = ''2m'',
                 writeTimeout = ''2m'', dialTimeout = ''2s'', safeMode = False,
                 timezone = [], changefeedID = ''123'', captureAddr = [], tlsMaterial = None\<rparr>
           \<and> h5 ! 0 = defaultParams)"
proof -
  have h1: "(0 :: nat) < length [defaultParams]" by simp
  have h2: "[defaultParams] ! 0 = defaultParams" by simp
  have c1: "Clone [defaultParams] 0 = Inr (1, [defaultParams, defaultParams])"
    by (simp add: Clone_def)
  have c2: "Clone [defaultParams, defaultParams] 1
      = Inr (2, [defaultParams, defaultParams, defaultParams])"
    by (simp add: Clone_def)
  have a: "assign [defaultParams, defaultParams, defaultParams] 2 (\<lambda>p. p\<lparr>changefeedID := ''123''\<rparr>)
       = Inr [defaultParams, defaultParams, defaultParams\<lparr>changefeedID := ''123''\<rparr>]"
    by (simp add: assign_def numeral_2_eq_2)
  have n: "assign [defaultParams, defaultParams, defaultParams] 7 (\<lambda>p. p\<lparr>changefeedID := ''123''\<rparr>)
       = Inl NilPointerDereference"
    by (simp add: assign_def)
  from Clone_isolation [OF h1 h2] h1 h2 c1 c2 a n show ?thesis by blast
qed

subsection \<open>Parsing\<close>

lemma andThen_Inr: "andThen r f = Inr y \<longleftrightarrow> (\<exists>x. r = Inr x \<and> f x = Inr y)"
  by (cases r) (simp_all add: andThen_def)

lemma intParam_keeps:
  assumes "intParam q key upd p = Inr p'"
    and "\<And>n x. timezone (upd n x) = timezone x" "\<And>n x. dialTimeout (upd n x) = dialTimeout x"
  shows "timezone p' = timezone p \<and> dialTimeout p' = dialTimeout p"
  using assms by (auto simp: intParam_def split: option.splits if_splits)

lemma boolParam_keeps:
  assumes "boolParam q key upd p = Inr p'"
    and "\<And>n x. timezone (upd n x) = timezone x" "\<And>n x. dialTimeout (upd n x) = dialTimeout x"
  shows "timezone p' = timezone p \<and> dialTimeout p' = dialTimeout p"
  using assms by (auto simp: boolParam_def split: option.splits if_splits)

lemma txnModeParam_keeps:
  assumes "txnModeParam q p = Inr p'"
  shows "timezone p' = timezone p \<and> dialTimeout p' = dialTimeout p"
  using assms by (auto simp: txnModeParam_def split: option.splits if_splits)

lemma tlsParam_keeps:
  assumes "tlsParam q p = Inr p'"
  shows "timezone p' = timezone p \<and> dialTimeout p' = dialTimeout p"
  using assms by (auto simp: tlsParam_def split: option.splits if_splits)

lemma durationParam_keeps:
  assumes "durationParam q key upd p = Inr p'"
    and "\<And>n x. timezone (upd n x) = timezone x"
  shows "timezone p' = timezone p"
  using assms by (auto simp: durationParam_def split: option.splits if_splits)

lemma durationParam_other:
  assumes "durationParam q key upd p = Inr p'"
    and "\<And>n x. dialTimeout (upd n x) = dialTimeout x"
  shows "dialTimeout p' = dialTimeout p"
  using assms by (auto simp: durationParam_def split: option.splits if_splits)

lemma durationParam_timeout:
  assumes "durationParam q ''timeout'' (\<lambda>d p. p\<lparr>dialTimeout := d\<rparr>) p = Inr p'"
  shows "dialTimeout p' = (case map_of q ''timeout'' of None \<Rightarrow> dialTimeout p | Some d \<Rightarrow> d)"
  using assms by (auto simp: durationParam_def split: option.splits if_splits)

lemma timezoneParam_sets:
  assumes "timezoneParam q p = Inr p'"
  shows "timezone p' =
           (case map_of q ''time-zone'' of
              None \<Rightarrow> ''\"UTC\"''
            | Some s \<Rightarrow> if s = [] then [] else ''\"'' @ s @ ''\"'')"
    and "dialTimeout p' = dialTimeout p"
  using assms by (auto simp: timezoneParam_def split: option.splits if_splits)

lemma parse_timezone:
  assumes "parseSinkURIToParams (Some u) opts = Inr p"
  shows "timezone p =
           (case map_of (url_Query u) ''time-zone'' of
              None \<Rightarrow> ''\"UTC\"''
            | Some s \<Rightarrow> if s = [] then [] else ''\"'' @ s @ ''\"'')"
proof -
  from assms obtain p9 p10 where
    tz: "timezoneParam (url_Query u) p9 = Inr p10" and tls: "tlsParam (url_Query u) p10 = Inr p"
    by (auto simp: parseSinkURIToParams_def Let_def andThen_Inr split: if_splits)
  from tlsParam_keeps [OF tls] timezoneParam_sets(1) [OF tz] show ?thesis by simp
qed

lemma parse_dialTimeout:
  assumes "parseSinkURIToParams (Some u) opts = Inr p"
  shows "dialTimeout p =
           (case map_of (url_Query u) ''timeout'' of None \<Rightarrow> dialTimeout defaultParams | Some d \<Rightarrow> d)"
proof -
  let ?q = "url_Query u"
  define p0 where "p0 = defaultParams
      \<lparr>changefeedID := (case opts OptChangefeedID of None \<Rightarrow> [] | Some v \<Rightarrow> v),
       captureAddr := (case opts OptCaptureAddr of None \<Rightarrow> [] | Some v \<Rightarrow> v)\<rparr>"
  have p0: "dialTimeout p0 = dialTimeout defaultParams"
    by (simp add: p0_def)
  from assms obtain p1 p2 p3 p4 p5 p6 p7 p8 p9 p10 where
    s1: "intParam ?q ''worker-count'' (\<lambda>n p. p\<lparr>workerCount := n\<rparr>) p0 = Inr p1"
    and s2: "intParam ?q ''max-txn-row'' (\<lambda>n p. p\<lparr>maxTxnRow := n\<rparr>) p1 = Inr p2"
    and s3: "txnModeParam ?q p2 = Inr p3"
    and s4: "boolParam ?q ''batch-replace-enable'' (\<lambda>b p. p\<lparr>batchReplaceEnabled := b\<rparr>) p3 = Inr p4"
    and s5: "intParam ?q ''batch-replace-size'' (\<lambda>n p. p\<lparr>batchReplaceSize := n\<rparr>) p4 = Inr p5"
    and s6: "boolParam ?q ''safe-mode'' (\<lambda>b p. p\<lparr>safeMode := b\<rparr>) p5 = Inr p6"
    and s7: "durationParam ?q ''read-timeout'' (\<lambda>d p. p\<lparr>readTimeout := d\<rparr>) p6 = Inr p7"
    and s8: "durationParam ?q ''write-timeout'' (\<lambda>d p. p\<lparr>writeTimeout := d\<rparr>) p7 = Inr p8"
    and s9: "durationParam ?q ''timeout'' (\<lambda>d p. p\<lparr>dialTimeout := d\<rparr>) p8 = Inr p9"
    and s10: "timezoneParam ?q p9 = Inr p10"
    and s11: "tlsParam ?q p10 = Inr p"
    unfolding parseSinkURIToParams_def Let_def p0_def [symmetric]
    by (auto simp: andThen_Inr split: if_splits)
  have "dialTimeout p8 = dialTimeout defaultParams"
    using intParam_keeps [OF s1] intParam_keeps [OF s2] txnModeParam_keeps [OF s3]
      boolParam_keeps [OF s4] intParam_keeps [OF s5] boolParam_keeps [OF s6]
      durationParam_other [OF s7] durationParam_other [OF s8] p0
    by simp
  moreover have "dialTimeout p = dialTimeout p9"
    using tlsParam_keeps [OF s11] timezoneParam_sets(2) [OF s10] by simp
  ultimately show ?thesis
    using durationParam_timeout [OF s9] by (simp split: option.splits)
qed

subsection \<open>Rendering\<close>

lemma joinParams_contains:
  "(k, v) \<in> set ps \<Longrightarrow> sublist (k @ ''='' @ QueryEscape v) (joinParams ps)"
proof (induction ps rule: joinParams.induct)
  case 1
  then show ?case by simp
next
  case (2 k' v')
  then show ?case by simp
next
  case (3 k' v' x rest)
  show ?case
  proof (cases "(k, v) = (k', v')")
    case True
    have "joinParams ((k', v') # x # rest)
        = (k @ ''='' @ QueryEscape v) @ (''&'' @ joinParams (x # rest))"
      using True by (cases x) simp
    then show ?thesis by (metis sublist_append_rightI)
  next
    case False
    with "3.prems" have "(k, v) \<in> set (x # rest)" by auto
    from "3.IH" [OF this] obtain a b where
      "joinParams (x # rest) = a @ (k @ ''='' @ QueryEscape v) @ b"
      by (auto simp: sublist_def)
    then have "joinParams ((k', v') # x # rest)
        = (k' @ ''='' @ QueryEscape v' @ ''&'' @ a) @ (k @ ''='' @ QueryEscape v) @ b"
      by (cases x) simp
    then show ?thesis unfolding sublist_def by blast
  qed
qed

lemma set_insertByKey: "set (insertByKey p ps) = insert p (set ps)"
  by (induction ps) auto

lemma set_sortByKey: "set (sortByKey ps) = set ps"
  by (induction ps) (simp_all add: sortByKey_def set_insertByKey)

lemma FormatDSN_contains:
  assumes "(k, v) \<in> set (dsn_Params c)"
  shows "Contains (FormatDSN c) (k @ ''='' @ QueryEscape v)"
proof -
  from assms have "(k, v) \<in> set (sortByKey (dsn_Params c))"
    by (simp add: set_sortByKey)
  from joinParams_contains [OF this] obtain a b where
    j: "joinParams (sortByKey (dsn_Params c)) = a @ (k @ ''='' @ QueryEscape v) @ b"
    by (auto simp: sublist_def)
  from assms have ne: "dsn_Params c \<noteq> []" by auto
  obtain pre where "FormatDSN c = pre @ ''?'' @ joinParams (sortByKey (dsn_Params c))"
    using ne by (simp add: FormatDSN_def)
  then have "FormatDSN c = (pre @ ''?'' @ a) @ (k @ ''='' @ QueryEscape v) @ b"
    using j by simp
  then show ?thesis unfolding Contains_def sublist_def by blast
qed

lemma setParam_mem: "(k, v) \<in> set (setParam k v ps)"
  by (induction ps) auto

lemma setParam_other: "k' \<noteq> k \<Longrightarrow> (k', v') \<in> set ps \<Longrightarrow> (k', v') \<in> set (setParam k v ps)"
  by (induction ps) auto

lemma setParam_keys: "fst ` set (setParam k v ps) = insert k (fst ` set ps)"
  by (induction ps) force+

lemma configureDSN_sets:
  "(''tidb_txn_mode'', tidbTxnMode p) \<in> set (dsn_Params (configureDSN dsn p))"
  "(''allow_auto_random_explicit_insert'', ''1'') \<in> set (dsn_Params (configureDSN dsn p))"
  "(''writeTimeout'', writeTimeout p) \<in> set (dsn_Params (configureDSN dsn p))"
  "(''readTimeout'', readTimeout p) \<in> set (dsn_Params (configureDSN dsn p))"
  "timezone p \<noteq> [] \<Longrightarrow> (''time_zone'', timezone p) \<in> set (dsn_Params (configureDSN dsn p))"
  "dialTimeout p \<noteq> dialTimeout defaultParams \<Longrightarrow>
     (''timeout'', dialTimeout p) \<in> set (dsn_Params (configureDSN dsn p))"
  by (simp_all add: configureDSN_def Let_def setParam_mem setParam_other)

lemma configureDSN_keys:
  "fst ` set (dsn_Params (configureDSN dsn p)) =
     fst ` set (dsn_Params dsn)
     \<union> {''readTimeout'', ''writeTimeout'', ''allow_auto_random_explicit_insert'', ''tidb_txn_mode''}
     \<union> (if timezone p \<noteq> [] then {''time_zone''} else {})
     \<union> (if dialTimeout p \<noteq> dialTimeout defaultParams then {''timeout''} else {})"
  by (auto simp: configureDSN_def Let_def setParam_keys)

subsection \<open>The time zone and the required DSN parameters\<close>

text \<open>
  Claim C7. Whenever \<open>parseSinkURIToParams\<close> succeeds, the timezone parameter is the
  value of \<open>time-zone\<close> between double quotes when that value is not empty
  (\<open>Asia/Shanghai\<close> gives \<open>"Asia/Shanghai"\<close>), the empty string when the key is given
  with an empty value, and \<open>"UTC"\<close> between double quotes when the key is absent. The
  DSN parameters then hold \<open>time_zone\<close> exactly when the timezone parameter is not
  empty (for a base DSN that has no \<open>time_zone\<close> of its own), and in that case the
  rendered DSN contains \<open>time_zone=\<close> followed by the escaped timezone.
\<close>

theorem timezone_parameter_and_dsn:
  assumes "parseSinkURIToParams (Some u) opts = Inr p"
  shows "timezone p =
           (case map_of (url_Query u) ''time-zone'' of
              None \<Rightarrow> ''\"UTC\"''
            | Some s \<Rightarrow> if s = [] then [] else ''\"'' @ s @ ''\"'')
         \<and> (''time_zone'' \<notin> fst ` set (dsn_Params dsn) \<longrightarrow>
              (''time_zone'' \<in> fst ` set (dsn_Params (configureDSN dsn p)) \<longleftrightarrow> timezone p \<noteq> []))
         \<and> (\<forall>s. generateDSNByParams dsn p db = Inr s \<and> timezone p \<noteq> [] \<longrightarrow>
              Contains s (''time_zone='' @ QueryEscape (timezone p)))"
proof (intro conjI)
  show "timezone p =
           (case map_of (url_Query u) ''time-zone'' of
              None \<Rightarrow> ''\"UTC\"''
            | Some s \<Rightarrow> if s = [] then [] else ''\"'' @ s @ ''\"'')"
    by (rule parse_timezone [OF assms])
  show "''time_zone'' \<notin> fst ` set (dsn_Params dsn) \<longrightarrow>
          (''time_zone'' \<in> fst ` set (dsn_Params (configureDSN dsn p)) \<longleftrightarrow> timezone p \<noteq> [])"
    by (simp add: configureDSN_keys)
  show "\<forall>s. generateDSNByParams dsn p db = Inr s \<and> timezone p \<noteq> [] \<longrightarrow>
              Contains s (''time_zone='' @ QueryEscape (timezone p))"
  proof (intro allI impI)
    fix s assume a: "generateDSNByParams dsn p db = Inr s \<and> timezone p \<noteq> []"
    then have s: "s = FormatDSN (configureDSN dsn p)"
      by (auto simp: generateDSNByParams_def split: sum.splits)
    from a have "(''time_zone'', timezone p) \<in> set (dsn_Params (configureDSN dsn p))"
      by (simp add: configureDSN_sets)
    from FormatDSN_contains [OF this] s
    show "Contains s (''time_zone='' @ QueryEscape (timezone p))" by simp
  qed
qed

lemmas sink_eval =
  parseSinkURIToParams_def testURI_def andThen_def intParam_def boolParam_def
  durationParam_def txnModeParam_def timezoneParam_def tlsParam_def Atoi_def ParseBool_def
  isDuration_def isDigit_def digitsValue_def defaultParams_def Let_def

lemmas render_eval =
  generateDSNByParams_def checkTiDBVariable_def mockTestDB_def configureDSN_def FormatDSN_def
  sortByKey_def
  testDSN_def QueryEscape_def escapeChar_def unreserved_def hexDigit_def defaultParams_def Let_def

theorem timezone_parameter_and_dsn_witness:
  "parseSinkURIToParams
       (Some (testURI [(''time-zone'', ''Asia/Shanghai''), (''worker-count'', ''32'')])) Map.empty
     = Inr (defaultParams\<lparr>workerCount := 32, timezone := ''\"Asia/Shanghai\"''\<rparr>)
   \<and> map_sum id timezone (parseSinkURIToParams
       (Some (testURI [(''time-zone'', []), (''worker-count'', ''32'')])) Map.empty) = Inr []
   \<and> map_sum id timezone (parseSinkURIToParams
       (Some (testURI [(''worker-count'', ''32'')])) Map.empty) = Inr ''\"UTC\"''
   \<and> generateDSNByParams testDSN
         (defaultParams\<lparr>workerCount := 32, timezone := ''\"Asia/Shanghai\"''\<rparr>) mockTestDB
       = Inr ''root:123456@tcp(127.0.0.1:4000)/?allow_auto_random_explicit_insert=1&readTimeout=2m&tidb_txn_mode=optimistic&time_zone=%22Asia%2FShanghai%22&writeTimeout=2m''
   \<and> Contains ''root:123456@tcp(127.0.0.1:4000)/?allow_auto_random_explicit_insert=1&readTimeout=2m&tidb_txn_mode=optimistic&time_zone=%22Asia%2FShanghai%22&writeTimeout=2m''
         (''time_zone='' @ QueryEscape ''\"Asia/Shanghai\"'')
   \<and> generateDSNByParams testDSN (defaultParams\<lparr>timezone := ''\"UTC\"''\<rparr>) mockTestDB
       = Inr ''root:123456@tcp(127.0.0.1:4000)/?allow_auto_random_explicit_insert=1&readTimeout=2m&tidb_txn_mode=optimistic&time_zone=%22UTC%22&writeTimeout=2m''
   \<and> generateDSNByParams testDSN defaultParams mockTestDB
       = Inr ''root:123456@tcp(127.0.0.1:4000)/?allow_auto_random_explicit_insert=1&readTimeout=2m&tidb_txn_mode=optimistic&writeTimeout=2m''
   \<and> \<not> Contains ''root:123456@tcp(127.0.0.1:4000)/?allow_auto_random_explicit_insert=1&readTimeout=2m&tidb_txn_mode=optimistic&writeTimeout=2m'' ''time_zone''"
proof -
  let ?p = "defaultParams\<lparr>workerCount := 32, timezone := ''\"Asia/Shanghai\"''\<rparr>"
  have h: "parseSinkURIToParams
       (Some (testURI [(''time-zone'', ''Asia/Shanghai''), (''worker-count'', ''32'')])) Map.empty
     = Inr ?p"
    by (simp add: sink_eval)
  have g: "generateDSNByParams testDSN ?p mockTestDB
       = Inr ''root:123456@tcp(127.0.0.1:4000)/?allow_auto_random_explicit_insert=1&readTimeout=2m&tidb_txn_mode=optimistic&time_zone=%22Asia%2FShanghai%22&writeTimeout=2m''"
    by (simp add: render_eval)
  have tz: "timezone ?p \<noteq> []" "timezone ?p = ''\"Asia/Shanghai\"''"
    by simp_all
  have c: "Contains ''root:123456@tcp(127.0.0.1:4000)/?allow_auto_random_explicit_insert=1&readTimeout=2m&tidb_txn_mode=optimistic&time_zone=%22Asia%2FShanghai%22&writeTimeout=2m''
         (''time_zone='' @ QueryEscape ''\"Asia/Shanghai\"'')"
    using timezone_parameter_and_dsn
      [OF h, of testDSN mockTestDB, THEN conjunct2, THEN conjunct2, rule_format, OF conjI, OF g tz(1)]
    by (simp only: tz(2))
  have e2: "map_sum id timezone (parseSinkURIToParams
       (Some (testURI [(''time-zone'', []), (''worker-count'', ''32'')])) Map.empty) = Inr []"
    by (simp add: sink_eval)
  have e3: "map_sum id timezone (parseSinkURIToParams
       (Some (testURI [(''worker-count'', ''32'')])) Map.empty) = Inr ''\"UTC\"''"
    by (simp add: sink_eval)
  have g2: "generateDSNByParams testDSN (defaultParams\<lparr>timezone := ''\"UTC\"''\<rparr>) mockTestDB
       = Inr ''root:123456@tcp(127.0.0.1:4000)/?allow_auto_random_explicit_insert=1&readTimeout=2m&tidb_txn_mode=optimistic&time_zone=%22UTC%22&writeTimeout=2m''"
    by (simp add: render_eval)
  have g3: "generateDSNByParams testDSN defaultParams mockTestDB
       = Inr ''root:123456@tcp(127.0.0.1:4000)/?allow_auto_random_explicit_insert=1&readTimeout=2m&tidb_txn_mode=optimistic&writeTimeout=2m''"
    by (simp add: render_eval)
  have n: "\<not> Contains ''root:123456@tcp(127.0.0.1:4000)/?allow_auto_random_explicit_insert=1&readTimeout=2m&tidb_txn_mode=optimistic&writeTimeout=2m'' ''time_zone''"
    by (simp add: Contains_def sublist_Cons_right)
  from h e2 e3 g c g2 g3 n show ?thesis by (intro conjI)
qed

text \<open>
  Claim C8. For every base DSN and every parameter record, when the probe of the
  downstream does not fail, \<open>generateDSNByParams\<close> returns a DSN that contains
  \<open>tidb_txn_mode\<close>, \<open>readTimeout\<close> and \<open>writeTimeout\<close> with the (escaped) values of the
  record and \<open>allow_auto_random_explicit_insert=1\<close>; for the default parameters these
  are \<open>tidb_txn_mode=optimistic\<close>, \<open>readTimeout=2m\<close> and \<open>writeTimeout=2m\<close>. If the
  record was parsed from a URI and the base DSN has no \<open>timeout\<close> of its own, the DSN
  parameters hold \<open>timeout\<close> only if the URI's query has the key \<open>timeout\<close>.
\<close>

theorem generateDSNByParams_required_keys:
  assumes "\<not> isl (checkTiDBVariable db ''allow_auto_random_explicit_insert'' ''1'')"
  shows "\<exists>s. generateDSNByParams dsn p db = Inr s
           \<and> Contains s (''tidb_txn_mode='' @ QueryEscape (tidbTxnMode p))
           \<and> Contains s (''readTimeout='' @ QueryEscape (readTimeout p))
           \<and> Contains s (''writeTimeout='' @ QueryEscape (writeTimeout p))
           \<and> Contains s ''allow_auto_random_explicit_insert=1''
           \<and> (p = defaultParams \<longrightarrow>
                 Contains s ''tidb_txn_mode=optimistic'' \<and> Contains s ''readTimeout=2m''
                 \<and> Contains s ''writeTimeout=2m'')
           \<and> (\<forall>u opts. parseSinkURIToParams (Some u) opts = Inr p
                 \<and> ''timeout'' \<notin> fst ` set (dsn_Params dsn)
                 \<and> ''timeout'' \<in> fst ` set (dsn_Params (configureDSN dsn p))
                 \<longrightarrow> ''timeout'' \<in> fst ` set (url_Query u))"
proof -
  let ?s = "FormatDSN (configureDSN dsn p)"
  have run: "generateDSNByParams dsn p db = Inr ?s"
    using assms by (auto simp: generateDSNByParams_def split: sum.splits)
  have one: "QueryEscape ''1'' = ''1''"
    by (simp add: QueryEscape_def escapeChar_def unreserved_def)
  have c1: "Contains ?s (''tidb_txn_mode='' @ QueryEscape (tidbTxnMode p))"
    using FormatDSN_contains [OF configureDSN_sets(1) [of p dsn]] by simp
  have c2: "Contains ?s (''readTimeout='' @ QueryEscape (readTimeout p))"
    using FormatDSN_contains [OF configureDSN_sets(4) [of p dsn]] by simp
  have c3: "Contains ?s (''writeTimeout='' @ QueryEscape (writeTimeout p))"
    using FormatDSN_contains [OF configureDSN_sets(3) [of p dsn]] by simp
  have c4: "Contains ?s (''allow_auto_random_explicit_insert='' @ QueryEscape ''1'')"
    using FormatDSN_contains [OF configureDSN_sets(2) [of dsn p]] by simp
  have c4': "Contains ?s ''allow_auto_random_explicit_insert=1''"
    using c4 by (simp add: one)
  have d: "p = defaultParams \<longrightarrow>
             Contains ?s ''tidb_txn_mode=optimistic'' \<and> Contains ?s ''readTimeout=2m''
             \<and> Contains ?s ''writeTimeout=2m''"
  proof
    assume p: "p = defaultParams"
    have "QueryEscape (tidbTxnMode defaultParams) = ''optimistic''"
      "QueryEscape (readTimeout defaultParams) = ''2m''"
      "QueryEscape (writeTimeout defaultParams) = ''2m''"
      by (simp_all add: defaultParams_def QueryEscape_def escapeChar_def unreserved_def)
    with c1 c2 c3 show "Contains ?s ''tidb_txn_mode=optimistic'' \<and> Contains ?s ''readTimeout=2m''
             \<and> Contains ?s ''writeTimeout=2m''"
      unfolding p by simp
  qed
  have t: "\<forall>u opts. parseSinkURIToParams (Some u) opts = Inr p
                 \<and> ''timeout'' \<notin> fst ` set (dsn_Params dsn)
                 \<and> ''timeout'' \<in> fst ` set (dsn_Params (configureDSN dsn p))
                 \<longrightarrow> ''timeout'' \<in> fst ` set (url_Query u)"
  proof (intro allI impI)
    fix u opts
    assume a: "parseSinkURIToParams (Some u) opts = Inr p
                 \<and> ''timeout'' \<notin> fst ` set (dsn_Params dsn)
                 \<and> ''timeout'' \<in> fst ` set (dsn_Params (configureDSN dsn p))"
    then have "dialTimeout p \<noteq> dialTimeout defaultParams"
      by (auto simp: configureDSN_keys split: if_splits)
    with parse_dialTimeout [of u opts p] a obtain d0 where
      "map_of (url_Query u) ''timeout'' = Some d0"
      by (cases "map_of (url_Query u) ''timeout''") auto
    then show "''timeout'' \<in> fst ` set (url_Query u)"
      by (metis map_of_eq_None_iff option.distinct(1))
  qed
  from run c1 c2 c3 c4' d t show ?thesis by blast
qed

theorem generateDSNByParams_required_keys_witness:
  "\<not> isl (checkTiDBVariable mockTestDB ''allow_auto_random_explicit_insert'' ''1'')
   \<and> generateDSNByParams testDSN defaultParams mockTestDB
       = Inr ''root:123456@tcp(127.0.0.1:4000)/?allow_auto_random_explicit_insert=1&readTimeout=2m&tidb_txn_mode=optimistic&writeTimeout=2m''
   \<and> Contains ''root:123456@tcp(127.0.0.1:4000)/?allow_auto_random_explicit_insert=1&readTimeout=2m&tidb_txn_mode=optimistic&writeTimeout=2m''
         ''tidb_txn_mode=optimistic''
   \<and> Contains ''root:123456@tcp(127.0.0.1:4000)/?allow_auto_random_explicit_insert=1&readTimeout=2m&tidb_txn_mode=optimistic&writeTimeout=2m''
         ''allow_auto_random_explicit_insert=1''
   \<and> \<not> Contains ''root:123456@tcp(127.0.0.1:4000)/?allow_auto_random_explicit_insert=1&readTimeout=2m&tidb_txn_mode=optimistic&writeTimeout=2m''
         ''timeout=''
   \<and> parseSinkURIToParams
         (Some (testURI [(''read-timeout'', ''4m''), (''write-timeout'', ''5m''), (''timeout'', ''3m'')]))
         Map.empty
       = Inr (defaultParams\<lparr>readTimeout := ''4m'', writeTimeout := ''5m'', dialTimeout := ''3m'',
                             timezone := ''\"UTC\"''\<rparr>)
   \<and> generateDSNByParams testDSN
         (defaultParams\<lparr>readTimeout := ''4m'', writeTimeout := ''5m'', dialTimeout := ''3m'',
                         timezone := ''\"UTC\"''\<rparr>) mockTestDB
       = Inr ''root:123456@tcp(127.0.0.1:4000)/?allow_auto_random_explicit_insert=1&readTimeout=4m&tidb_txn_mode=optimistic&time_zone=%22UTC%22&timeout=3m&writeTimeout=5m''
   \<and> Contains ''root:123456@tcp(127.0.0.1:4000)/?allow_auto_random_explicit_insert=1&readTimeout=4m&tidb_txn_mode=optimistic&time_zone=%22UTC%22&timeout=3m&writeTimeout=5m''
         ''readTimeout=4m''
   \<and> Contains ''root:123456@tcp(127.0.0.1:4000)/?allow_auto_random_explicit_insert=1&readTimeout=4m&tidb_txn_mode=optimistic&time_zone=%22UTC%22&timeout=3m&writeTimeout=5m''
         ''writeTimeout=5m''
   \<and> Contains ''root:123456@tcp(127.0.0.1:4000)/?allow_auto_random_explicit_insert=1&readTimeout=4m&tidb_txn_mode=optimistic&time_zone=%22UTC%22&timeout=3m&writeTimeout=5m''
         ''timeout=3m''"
proof -
  let ?p = "defaultParams\<lparr>readTimeout := ''4m'', writeTimeout := ''5m'', dialTimeout := ''3m'',
                             timezone := ''\"UTC\"''\<rparr>"
  let ?d = "''root:123456@tcp(127.0.0.1:4000)/?allow_auto_random_explicit_insert=1&readTimeout=2m&tidb_txn_mode=optimistic&writeTimeout=2m''"
  let ?t = "''root:123456@tcp(127.0.0.1:4000)/?allow_auto_random_explicit_insert=1&readTimeout=4m&tidb_txn_mode=optimistic&time_zone=%22UTC%22&timeout=3m&writeTimeout=5m''"
  have h: "\<not> isl (checkTiDBVariable mockTestDB ''allow_auto_random_explicit_insert'' ''1'')"
    by (simp add: checkTiDBVariable_def mockTestDB_def)
  have g1: "generateDSNByParams testDSN defaultParams mockTestDB = Inr ?d"
    by (simp add: render_eval)
  have pr: "parseSinkURIToParams
         (Some (testURI [(''read-timeout'', ''4m''), (''write-timeout'', ''5m''), (''timeout'', ''3m'')]))
         Map.empty = Inr ?p"
    by (simp add: sink_eval)
  have g2: "generateDSNByParams testDSN ?p mockTestDB = Inr ?t"
    by (simp add: render_eval)
  from generateDSNByParams_required_keys [OF h, of testDSN defaultParams] g1
  have d: "Contains ?d ''tidb_txn_mode=optimistic''"
    "Contains ?d ''allow_auto_random_explicit_insert=1''"
    by auto
  have nd: "\<not> Contains ?d ''timeout=''"
    by (simp add: Contains_def sublist_Cons_right)
  have t: "Contains ?t ''readTimeout=4m''" "Contains ?t ''writeTimeout=5m''"
    "Contains ?t ''timeout=3m''"
    by (simp_all add: Contains_def sublist_Cons_right)
  from h g1 d nd pr g2 t show ?thesis by (intro conjI)
qed

end
